theory Spec2Isabelle
  imports Main "HOL-Library.Word" "HOL-Library.Monad_Syntax"
begin

unbundle bit_operations_syntax

section \<open>Data model of package uuid47\<close>

text \<open>
  Go's \<open>byte\<close> and \<open>uint64\<close> are words of 8 and 64 bits. \<open>UUID\<close> is the array type
  \<open>[16]byte\<close>: a list of bytes whose length is 16 (the length is part of the Go type, so
  it is a hypothesis of every theorem about a \<open>UUID\<close>). A Go \<open>string\<close> is a sequence
  of bytes, and \<open>s[i]\<close> is a byte. Go's \<open>int\<close> is modelled by \<open>int\<close>; the only
  \<open>int\<close> values of the package are lengths, indices, version numbers and the values
  of hex digits, all far from the bounds of 64 bits.
\<close>

type_synonym byte = "8 word"
type_synonym uint64 = "64 word"
type_synonym UUID = "byte list"

record Key =
  K0 :: uint64
  K1 :: uint64

datatype error =
    ErrInvalidLength
  | ErrInvalidFormat
  | ErrInvalidHex
  | ErrInvalidVersion
  | ErrInvalidByteSlice

subsection \<open>Run-time checked indexing\<close>

text \<open>
  An index expression on a slice or a string, and one on an array whose index is not a
  constant, is checked when it runs: out of range, the program panics. A panic is the
  value \<open>None\<close>. Constant indices into arrays (\<open>u[6]\<close>, \<open>msg[0]\<close>, \<open>v7[0:6]\<close>) are
  checked by the compiler and are written with \<open>!\<close>, \<open>list_update\<close> and \<open>take\<close>.
\<close>

definition at :: "'a list \<Rightarrow> int \<Rightarrow> 'a option" where
  "at p i = (if 0 \<le> i \<and> i < int (length p) then Some (p ! nat i) else None)"

definition upd :: "'a list \<Rightarrow> int \<Rightarrow> 'a \<Rightarrow> 'a list option" where
  "upd p i v = (if 0 \<le> i \<and> i < int (length p) then Some (p[nat i := v]) else None)"

definition slice_from :: "'a list \<Rightarrow> int \<Rightarrow> 'a list option" where
  "slice_from p i = (if 0 \<le> i \<and> i \<le> int (length p) then Some (drop (nat i) p) else None)"

subsection \<open>Byte order helpers\<close>

definition rd64le :: "byte list \<Rightarrow> uint64 option" where
  "rd64le p = do {
     p0 \<leftarrow> at p 0; p1 \<leftarrow> at p 1; p2 \<leftarrow> at p 2; p3 \<leftarrow> at p 3;
     p4 \<leftarrow> at p 4; p5 \<leftarrow> at p 5; p6 \<leftarrow> at p 6; p7 \<leftarrow> at p 7;
     Some (ucast p0 OR push_bit 8 (ucast p1) OR push_bit 16 (ucast p2) OR
           push_bit 24 (ucast p3) OR push_bit 32 (ucast p4) OR push_bit 40 (ucast p5) OR
           push_bit 48 (ucast p6) OR push_bit 56 (ucast p7))
   }"

definition wr48be :: "byte list \<Rightarrow> uint64 \<Rightarrow> byte list option" where
  "wr48be dst v48 = do {
     dst \<leftarrow> upd dst 0 (ucast (drop_bit 40 v48));
     dst \<leftarrow> upd dst 1 (ucast (drop_bit 32 v48));
     dst \<leftarrow> upd dst 2 (ucast (drop_bit 24 v48));
     dst \<leftarrow> upd dst 3 (ucast (drop_bit 16 v48));
     dst \<leftarrow> upd dst 4 (ucast (drop_bit 8 v48));
     dst \<leftarrow> upd dst 5 (ucast (drop_bit 0 v48));
     Some dst
   }"

definition rd48be :: "byte list \<Rightarrow> uint64 option" where
  "rd48be src = do {
     s0 \<leftarrow> at src 0; s1 \<leftarrow> at src 1; s2 \<leftarrow> at src 2;
     s3 \<leftarrow> at src 3; s4 \<leftarrow> at src 4; s5 \<leftarrow> at src 5;
     Some (push_bit 40 (ucast s0) OR push_bit 32 (ucast s1) OR push_bit 24 (ucast s2) OR
           push_bit 16 (ucast s3) OR push_bit 8 (ucast s4) OR push_bit 0 (ucast s5))
   }"

text \<open>
  \<open>rotl64(x uint64, b uint)\<close>: the count is an unsigned 64-bit value, \<open>64 - b\<close> wraps
  around, and a shift by 64 or more gives 0 (as \<open>push_bit\<close> and \<open>drop_bit\<close> do).
\<close>

definition rotl64 :: "uint64 \<Rightarrow> uint64 \<Rightarrow> uint64" where
  "rotl64 x b = push_bit (unat b) x OR drop_bit (unat (64 - b)) x"

section \<open>SipHash-2-4\<close>

type_synonym sipstate = "uint64 \<times> uint64 \<times> uint64 \<times> uint64"

text \<open>
  The body of the three round loops of \<open>siphash24\<close> (\<open>for range 2\<close>, \<open>for range 2\<close>,
  \<open>for range 4\<close>): the source repeats the same fourteen assignments in each.
\<close>

definition sipround :: "sipstate \<Rightarrow> sipstate" where
  "sipround s = (case s of (v0, v1, v2, v3) \<Rightarrow>
     let v0 = v0 + v1;
         v2 = v2 + v3;
         v1 = rotl64 v1 13;
         v3 = rotl64 v3 16;
         v1 = v1 XOR v0;
         v3 = v3 XOR v2;
         v0 = rotl64 v0 32;
         v2 = v2 + v1;
         v0 = v0 + v3;
         v1 = rotl64 v1 17;
         v3 = rotl64 v3 21;
         v1 = v1 XOR v2;
         v3 = v3 XOR v0;
         v2 = rotl64 v2 32
     in (v0, v1, v2, v3))"

text \<open>One pass of the block loop's body, for the block \<open>m\<close>.\<close>

definition sipblock :: "uint64 \<Rightarrow> sipstate \<Rightarrow> sipstate" where
  "sipblock m s = (case s of (v0, v1, v2, v3) \<Rightarrow>
     let v3 = v3 XOR m;
         (v0, v1, v2, v3) = sipround (sipround (v0, v1, v2, v3));
         v0 = v0 XOR m
     in (v0, v1, v2, v3))"

text \<open>The loop \<open>for i := 0; i < end; i += 8\<close>, from the index \<open>i\<close> on.\<close>

function sipblocks :: "byte list \<Rightarrow> int \<Rightarrow> int \<Rightarrow> sipstate \<Rightarrow> sipstate option" where
  "sipblocks inp endp i s =
     (if i < endp then
        do {
          p \<leftarrow> slice_from inp i;
          m \<leftarrow> rd64le p;
          sipblocks inp endp (i + 8) (sipblock m s)
        }
      else Some s)"
  by pat_completeness auto
termination
  by (relation "measure (\<lambda>(inp, endp, i, s). nat (endp - i))") auto

text \<open>
  The \<open>switch inlen & 7\<close> with its \<open>fallthrough\<close>s: \<open>siptail_k\<close> is the code from
  \<open>case k\<close> to the end of the switch.
\<close>

definition siptail_1 :: "byte list \<Rightarrow> int \<Rightarrow> uint64 \<Rightarrow> uint64 option" where
  "siptail_1 inp endp t = do { x \<leftarrow> at inp (endp + 0); Some (t OR push_bit 0 (ucast x)) }"

definition siptail_2 :: "byte list \<Rightarrow> int \<Rightarrow> uint64 \<Rightarrow> uint64 option" where
  "siptail_2 inp endp t =
     do { x \<leftarrow> at inp (endp + 1); siptail_1 inp endp (t OR push_bit 8 (ucast x)) }"

definition siptail_3 :: "byte list \<Rightarrow> int \<Rightarrow> uint64 \<Rightarrow> uint64 option" where
  "siptail_3 inp endp t =
     do { x \<leftarrow> at inp (endp + 2); siptail_2 inp endp (t OR push_bit 16 (ucast x)) }"

definition siptail_4 :: "byte list \<Rightarrow> int \<Rightarrow> uint64 \<Rightarrow> uint64 option" where
  "siptail_4 inp endp t =
     do { x \<leftarrow> at inp (endp + 3); siptail_3 inp endp (t OR push_bit 24 (ucast x)) }"

definition siptail_5 :: "byte list \<Rightarrow> int \<Rightarrow> uint64 \<Rightarrow> uint64 option" where
  "siptail_5 inp endp t =
     do { x \<leftarrow> at inp (endp + 4); siptail_4 inp endp (t OR push_bit 32 (ucast x)) }"

definition siptail_6 :: "byte list \<Rightarrow> int \<Rightarrow> uint64 \<Rightarrow> uint64 option" where
  "siptail_6 inp endp t =
     do { x \<leftarrow> at inp (endp + 5); siptail_5 inp endp (t OR push_bit 40 (ucast x)) }"

definition siptail_7 :: "byte list \<Rightarrow> int \<Rightarrow> uint64 \<Rightarrow> uint64 option" where
  "siptail_7 inp endp t =
     do { x \<leftarrow> at inp (endp + 6); siptail_6 inp endp (t OR push_bit 48 (ucast x)) }"

definition siptail :: "byte list \<Rightarrow> int \<Rightarrow> int \<Rightarrow> uint64 option" where
  "siptail inp endp sel =
     (let t = 0 in
      if sel = 7 then siptail_7 inp endp t
      else if sel = 6 then siptail_6 inp endp t
      else if sel = 5 then siptail_5 inp endp t
      else if sel = 4 then siptail_4 inp endp t
      else if sel = 3 then siptail_3 inp endp t
      else if sel = 2 then siptail_2 inp endp t
      else if sel = 1 then siptail_1 inp endp t
      else Some t)"

definition siphash24 :: "byte list \<Rightarrow> uint64 \<Rightarrow> uint64 \<Rightarrow> uint64 option" where
  "siphash24 inp k0 k1 =
     (let v0 = 0x736f6d6570736575 XOR k0;
          v1 = 0x646f72616e646f6d XOR k1;
          v2 = 0x6c7967656e657261 XOR k0;
          v3 = 0x7465646279746573 XOR k1;
          inlen = int (length inp);
          endp = inlen AND NOT 7;
          b = push_bit 56 (word_of_int inlen)
      in do {
        (v0, v1, v2, v3) \<leftarrow> sipblocks inp endp 0 (v0, v1, v2, v3);
        t \<leftarrow> siptail inp endp (inlen AND 7);
        let b = b OR t;
        let v3 = v3 XOR b;
        let (v0, v1, v2, v3) = sipround (sipround (v0, v1, v2, v3));
        let v0 = v0 XOR b;
        let v2 = v2 XOR 0xff;
        let (v0, v1, v2, v3) = sipround (sipround (sipround (sipround (v0, v1, v2, v3))));
        Some (v0 XOR v1 XOR v2 XOR v3)
      })"

section \<open>Version and variant fields\<close>

definition Version :: "UUID \<Rightarrow> int" where
  "Version u = uint (drop_bit 4 (u ! 6)) AND 0x0F"

definition SetVersion :: "UUID \<Rightarrow> int \<Rightarrow> UUID" where
  "SetVersion u ver = u[6 := (u ! 6 AND 0x0F) OR word_of_int (push_bit 4 (ver AND 0x0F))]"

definition SetVariantRFC4122 :: "UUID \<Rightarrow> UUID" where
  "SetVariantRFC4122 u = u[8 := (u ! 8 AND 0x3F) OR 0x80]"

definition setVersion :: "UUID \<Rightarrow> int \<Rightarrow> UUID" where
  "setVersion u ver = SetVersion u ver"

definition setVariantRFC4122 :: "UUID \<Rightarrow> UUID" where
  "setVariantRFC4122 u = SetVariantRFC4122 u"

section \<open>Encode and Decode\<close>

text \<open>\<open>buildSipInputFromV7(u *UUID, msg *[10]byte)\<close> fills \<open>msg\<close>; the model returns it.\<close>

definition buildSipInputFromV7 :: "UUID \<Rightarrow> byte list \<Rightarrow> byte list" where
  "buildSipInputFromV7 u msg =
     (let msg = msg[0 := u ! 6 AND 0x0F];
          msg = msg[1 := u ! 7];
          msg = msg[2 := u ! 8 AND 0x3F];
          msg = msg[3 := u ! 9];
          msg = msg[4 := u ! 10];
          msg = msg[5 := u ! 11];
          msg = msg[6 := u ! 12];
          msg = msg[7 := u ! 13];
          msg = msg[8 := u ! 14];
          msg = msg[9 := u ! 15]
      in msg)"

text \<open>
  \<open>wr48be(out[0:6], v)\<close> writes through the slice into the first six bytes of
  \<open>out\<close>: the written slice is put back in front of the other ten bytes.
\<close>

definition Encode :: "UUID \<Rightarrow> Key \<Rightarrow> UUID option" where
  "Encode v7 key = do {
     let sipmsg = buildSipInputFromV7 v7 (replicate 10 0);
     h \<leftarrow> siphash24 sipmsg (K0 key) (K1 key);
     let mask48 = h AND 0x0000FFFFFFFFFFFF;
     ts48 \<leftarrow> rd48be (take 6 v7);
     let encTS = ts48 XOR mask48;
     let out = v7;
     dst \<leftarrow> wr48be (take 6 out) encTS;
     let out = dst @ drop 6 out;
     let out = setVersion out 4;
     let out = setVariantRFC4122 out;
     Some out
   }"

definition Decode :: "UUID \<Rightarrow> Key \<Rightarrow> UUID option" where
  "Decode v4facade key = do {
     let sipmsg = buildSipInputFromV7 v4facade (replicate 10 0);
     h \<leftarrow> siphash24 sipmsg (K0 key) (K1 key);
     let mask48 = h AND 0x0000FFFFFFFFFFFF;
     encTS \<leftarrow> rd48be (take 6 v4facade);
     let ts48 = encTS XOR mask48;
     let out = v4facade;
     dst \<leftarrow> wr48be (take 6 out) ts48;
     let out = dst @ drop 6 out;
     let out = setVersion out 7;
     let out = setVariantRFC4122 out;
     Some out
   }"

section \<open>Text form\<close>

text \<open>The byte of an ASCII character, for the character literals of the source.\<close>

abbreviation ch :: "char \<Rightarrow> byte" where
  "ch c \<equiv> of_char c"

text \<open>
  Go's \<open>a || b\<close> on operands that may panic: \<open>b\<close> is evaluated only when \<open>a\<close> is
  false.
\<close>

definition orelse :: "bool option \<Rightarrow> bool option \<Rightarrow> bool option" where
  "orelse a b = do { x \<leftarrow> a; if x then Some True else b }"

definition hexval :: "byte \<Rightarrow> int" where
  "hexval c =
     (if ch CHR ''0'' \<le> c \<and> c \<le> ch CHR ''9'' then uint (c - ch CHR ''0'')
      else if ch CHR ''a'' \<le> c \<and> c \<le> ch CHR ''f'' then uint (c - ch CHR ''a'' + 10)
      else if ch CHR ''A'' \<le> c \<and> c \<le> ch CHR ''F'' then uint (c - ch CHR ''A'' + 10)
      else - 1)"

text \<open>The zero value \<open>UUID{}\<close>, also the initial value of \<open>var out UUID\<close>.\<close>

definition UUID_zero :: UUID where
  "UUID_zero = replicate 16 0"

text \<open>The position in the string of the first hex digit of byte \<open>i\<close>.\<close>

definition Parse_pos :: "int \<Rightarrow> int" where
  "Parse_pos i =
     (if i < 4 then i * 2
      else if i < 6 then i * 2 + 1
      else if i < 8 then i * 2 + 2
      else if i < 10 then i * 2 + 3
      else i * 2 + 4)"

text \<open>
  The loop \<open>for i := range 16\<close> of \<open>Parse\<close>, from \<open>i\<close> on. A function that returns
  \<open>(UUID, error)\<close> is a pair whose second component is \<open>None\<close> for \<open>nil\<close>.
\<close>

function Parse_loop :: "byte list \<Rightarrow> int \<Rightarrow> UUID \<Rightarrow> (UUID \<times> error option) option" where
  "Parse_loop s i out =
     (if i < 16 then
        do {
          let pos = Parse_pos i;
          c \<leftarrow> at s pos;
          let h = hexval c;
          c \<leftarrow> at s (pos + 1);
          let l = hexval c;
          if h < 0 \<or> l < 0 then Some (UUID_zero, Some ErrInvalidHex)
          else do {
            out \<leftarrow> upd out i (word_of_int (push_bit 4 h OR l));
            Parse_loop s (i + 1) out
          }
        }
      else Some (out, None))"
  by pat_completeness auto
termination
  by (relation "measure (\<lambda>(s, i, out). nat (16 - i))") auto

text \<open>
  One pass of the loop's body, read off the source: whether both characters of byte \<open>i\<close>
  are hex digits (\<open>h \<ge> 0\<close> and \<open>l \<ge> 0\<close>), and the byte \<open>byte((h << 4) | l)\<close> that is
  stored then.
\<close>

definition Parse_digits_ok :: "byte list \<Rightarrow> int \<Rightarrow> bool" where
  "Parse_digits_ok s i \<longleftrightarrow>
     0 \<le> hexval (s ! nat (Parse_pos i)) \<and> 0 \<le> hexval (s ! nat (Parse_pos i + 1))"

definition Parse_byte :: "byte list \<Rightarrow> int \<Rightarrow> byte" where
  "Parse_byte s i =
     word_of_int (push_bit 4 (hexval (s ! nat (Parse_pos i))) OR
                  hexval (s ! nat (Parse_pos i + 1)))"

definition Parse :: "byte list \<Rightarrow> (UUID \<times> error option) option" where
  "Parse s =
     (if int (length s) \<noteq> 36 then Some (UUID_zero, Some ErrInvalidLength)
      else do {
        bad \<leftarrow> orelse (map_option (\<lambda>c. c \<noteq> ch CHR ''-'') (at s 8))
                (orelse (map_option (\<lambda>c. c \<noteq> ch CHR ''-'') (at s 13))
                (orelse (map_option (\<lambda>c. c \<noteq> ch CHR ''-'') (at s 18))
                        (map_option (\<lambda>c. c \<noteq> ch CHR ''-'') (at s 23))));
        if bad then Some (UUID_zero, Some ErrInvalidFormat)
        else Parse_loop s 0 UUID_zero
      })"

definition hexd :: "byte list" where
  "hexd = map ch ''0123456789abcdef''"

definition dpos :: "int list" where
  "dpos = [4, 6, 8, 10]"

text \<open>The loop \<open>for i := range 16\<close> of \<open>String\<close>, from \<open>i\<close> on, with \<open>j\<close> and \<open>buf\<close>.\<close>

function String_loop :: "UUID \<Rightarrow> int \<Rightarrow> int \<Rightarrow> byte list \<Rightarrow> byte list option" where
  "String_loop u i j buf =
     (if i < 16 then
        do {
          dash \<leftarrow> orelse (map_option (\<lambda>d. i = d) (at dpos 0))
                  (orelse (map_option (\<lambda>d. i = d) (at dpos 1))
                  (orelse (map_option (\<lambda>d. i = d) (at dpos 2))
                          (map_option (\<lambda>d. i = d) (at dpos 3))));
          (j, buf) \<leftarrow>
            (if dash then do { buf \<leftarrow> upd buf j (ch CHR ''-''); Some (j + 1, buf) }
             else Some (j, buf));
          x \<leftarrow> at u i;
          c \<leftarrow> at hexd (uint (drop_bit 4 x AND 0xF));
          buf \<leftarrow> upd buf j c;
          let j = j + 1;
          x \<leftarrow> at u i;
          c \<leftarrow> at hexd (uint (x AND 0xF));
          buf \<leftarrow> upd buf j c;
          let j = j + 1;
          String_loop u (i + 1) j buf
        }
      else Some buf)"
  by pat_completeness auto
termination
  by (relation "measure (\<lambda>(u, i, j, buf). nat (16 - i))") auto

definition String :: "UUID \<Rightarrow> byte list option" where
  "String u = String_loop u 0 0 (replicate 36 0)"

text \<open>
  The built-in \<open>copy(dst, src)\<close> copies \<open>min(len(dst), len(src))\<close> elements; the model
  returns the new contents of \<open>dst\<close>.
\<close>

definition copy :: "'a list \<Rightarrow> 'a list \<Rightarrow> 'a list" where
  "copy dst src =
     (let n = min (length dst) (length src) in take n src @ drop n dst)"

text \<open>
  Methods on \<open>*UUID\<close> that write the receiver take its old value and return the new one
  with the error.
\<close>

definition SetBytes :: "UUID \<Rightarrow> byte list \<Rightarrow> UUID \<times> error option" where
  "SetBytes u b =
     (if int (length b) \<noteq> 16 then (u, Some ErrInvalidByteSlice)
      else (copy u b, None))"

definition UnmarshalText :: "UUID \<Rightarrow> byte list \<Rightarrow> (UUID \<times> error option) option" where
  "UnmarshalText u text = do {
     (parsed, err) \<leftarrow> Parse text;
     if err \<noteq> None then Some (u, err)
     else Some (parsed, None)
   }"

section \<open>The test vectors of the package's tests\<close>

text \<open>
  From \<open>TestSipHashSwitchAndVectorsSubset\<close>: the key, the expected outputs for the
  lengths 0 to 12 (as little-endian bytes) and the message \<open>msg[i] = byte(i)\<close>.
  \<open>leU64\<close> is \<open>binary.LittleEndian.Uint64\<close> of the Go library.
\<close>

definition test_k0 :: uint64 where
  "test_k0 = 0x0706050403020100"

definition test_k1 :: uint64 where
  "test_k1 = 0x0f0e0d0c0b0a0908"

definition vbytes :: "byte list list" where
  "vbytes =
    [[0x31, 0x0e, 0x0e, 0xdd, 0x47, 0xdb, 0x6f, 0x72],
     [0xfd, 0x67, 0xdc, 0x93, 0xc5, 0x39, 0xf8, 0x74],
     [0x5a, 0x4f, 0xa9, 0xd9, 0x09, 0x80, 0x6c, 0x0d],
     [0x2d, 0x7e, 0xfb, 0xd7, 0x96, 0x66, 0x67, 0x85],
     [0xb7, 0x87, 0x71, 0x27, 0xe0, 0x94, 0x27, 0xcf],
     [0x8d, 0xa6, 0x99, 0xcd, 0x64, 0x55, 0x76, 0x18],
     [0xce, 0xe3, 0xfe, 0x58, 0x6e, 0x46, 0xc9, 0xcb],
     [0x37, 0xd1, 0x01, 0x8b, 0xf5, 0x00, 0x02, 0xab],
     [0x62, 0x24, 0x93, 0x9a, 0x79, 0xf5, 0xf5, 0x93],
     [0xb0, 0xe4, 0xa9, 0x0b, 0xdf, 0x82, 0x00, 0x9e],
     [0xf3, 0xb9, 0xdd, 0x94, 0xc5, 0xbb, 0x5d, 0x7a],
     [0xa7, 0xad, 0x6b, 0x22, 0x46, 0x2f, 0xb3, 0xf4],
     [0xfb, 0xe5, 0x0e, 0x86, 0xbc, 0x8f, 0x1e, 0x75]]"

text \<open>
  The next entry of the published SipHash-2-4 table (length 13), which the test's
  subset leaves out.
\<close>

definition vbytes_13 :: "byte list" where
  "vbytes_13 = [0x90, 0x3d, 0x84, 0xc0, 0x27, 0x56, 0xea, 0x14]"

definition leU64 :: "byte list \<Rightarrow> uint64 option" where
  "leU64 b = rd64le b"

definition test_msg :: "byte list" where
  "test_msg = map of_nat [0..<64]"

text \<open>From \<open>Example\<close>: the key, the UUIDv7 and the expected facade.\<close>

definition example_key :: Key where
  "example_key = \<lparr>K0 = 0x0123456789abcdef, K1 = 0xfedcba9876543210\<rparr>"

definition example_v7 :: UUID where
  "example_v7 = [0x01, 0x8f, 0x2d, 0x9f, 0x9a, 0x2a, 0x7d, 0xef,
                 0x8c, 0x3f, 0x7b, 0x1a, 0x2c, 0x4d, 0x5e, 0x6f]"

definition example_facade :: UUID where
  "example_facade = [0x24, 0x63, 0xc7, 0x80, 0x7f, 0xca, 0x4d, 0xef,
                     0x8c, 0x3f, 0x7b, 0x1a, 0x2c, 0x4d, 0x5e, 0x6f]"

definition example_v7_string :: "byte list" where
  "example_v7_string = map ch ''018f2d9f-9a2a-7def-8c3f-7b1a2c4d5e6f''"

definition example_facade_string :: "byte list" where
  "example_facade_string = map ch ''2463c780-7fca-4def-8c3f-7b1a2c4d5e6f''"

text \<open>A string of 36 characters with no hyphen and no hex digit.\<close>

definition all_z :: "byte list" where
  "all_z = map ch ''zzzzzzzzzzzzzzzzzzzzzzzzzzzzzzzzzzzz''"

section \<open>Notions of the specification\<close>

text \<open>
  The fields of an identifier, as the specification lays them out: the timestamp field
  is bytes 0 to 5; rand_a is the low nibble of byte 6 and byte 7; rand_b is the low six
  bits of byte 8 and bytes 9 to 15; the version is the high nibble of byte 6 and the
  variant the top two bits of byte 8.
\<close>

definition timestamp_field :: "UUID \<Rightarrow> byte list" where
  "timestamp_field u = take 6 u"

definition rand_bits :: "UUID \<Rightarrow> byte list" where
  "rand_bits u = [u ! 6 AND 0x0F, u ! 7, u ! 8 AND 0x3F] @ drop 9 u"

definition version_nibble :: "UUID \<Rightarrow> byte" where
  "version_nibble u = drop_bit 4 (u ! 6)"

definition variant_bits :: "UUID \<Rightarrow> byte" where
  "variant_bits u = drop_bit 6 (u ! 8)"

text \<open>
  The mask of an identifier under a key, as step 1 of \<open>Encode\<close> and of \<open>Decode\<close>
  computes it: the low 48 bits of the hash of the identifier's message.
\<close>

definition mask48 :: "UUID \<Rightarrow> Key \<Rightarrow> uint64 option" where
  "mask48 u key =
     map_option (\<lambda>h. h AND 0x0000FFFFFFFFFFFF)
       (siphash24 (buildSipInputFromV7 u (replicate 10 0)) (K0 key) (K1 key))"

text \<open>
  The canonical text form: 36 characters, hyphens at the offsets 8, 13, 18 and 23, a
  hex digit at each of the 32 other offsets.
\<close>

definition hex_char :: "byte \<Rightarrow> bool" where
  "hex_char c \<longleftrightarrow>
     (ch CHR ''0'' \<le> c \<and> c \<le> ch CHR ''9'') \<or>
     (ch CHR ''a'' \<le> c \<and> c \<le> ch CHR ''f'') \<or>
     (ch CHR ''A'' \<le> c \<and> c \<le> ch CHR ''F'')"

definition lower_hex_char :: "byte \<Rightarrow> bool" where
  "lower_hex_char c \<longleftrightarrow>
     (ch CHR ''0'' \<le> c \<and> c \<le> ch CHR ''9'') \<or> (ch CHR ''a'' \<le> c \<and> c \<le> ch CHR ''f'')"

definition hyphen_offsets :: "nat list" where
  "hyphen_offsets = [8, 13, 18, 23]"

definition data_offsets :: "nat list" where
  "data_offsets = filter (\<lambda>p. p \<notin> set hyphen_offsets) [0..<36]"

definition hyphens_placed :: "byte list \<Rightarrow> bool" where
  "hyphens_placed s \<longleftrightarrow> list_all (\<lambda>p. s ! p = ch CHR ''-'') hyphen_offsets"

definition hex_at_data :: "byte list \<Rightarrow> bool" where
  "hex_at_data s \<longleftrightarrow> list_all (\<lambda>p. hex_char (s ! p)) data_offsets"

definition canonical_text :: "byte list \<Rightarrow> bool" where
  "canonical_text s \<longleftrightarrow> length s = 36 \<and> hyphens_placed s \<and> hex_at_data s"

definition lower_canonical_text :: "byte list \<Rightarrow> bool" where
  "lower_canonical_text s \<longleftrightarrow>
     length s = 36 \<and> hyphens_placed s \<and> list_all (\<lambda>p. lower_hex_char (s ! p)) data_offsets"

section \<open>Lists of a known length\<close>

lemma list_update_numeral [simp]:
  "(x # xs)[numeral n := v] = x # xs[pred_numeral n := v]"
  by (simp add: numeral_eq_Suc)

lemma replicate_10: "replicate 10 x = [x, x, x, x, x, x, x, x, x, x]"
  by (simp add: numeral_eq_Suc)

lemma replicate_16: "replicate 16 x = [x, x, x, x, x, x, x, x, x, x, x, x, x, x, x, x]"
  by (simp add: numeral_eq_Suc)

lemma length_16_explicit:
  "length (x :: 'a list) = 16 \<Longrightarrow>
     \<exists>b0 b1 b2 b3 b4 b5 b6 b7 b8 b9 b10 b11 b12 b13 b14 b15.
       x = [b0, b1, b2, b3, b4, b5, b6, b7, b8, b9, b10, b11, b12, b13, b14, b15]"
  by (simp add: numeral_eq_Suc length_Suc_conv) blast

section \<open>Bytes and masks\<close>

lemma low_nibble_tagged_4: "((b AND 0x0F) OR 0x40) AND 0x0F = b AND (0x0F :: byte)"
  by (simp add: bit.conj_disj_distrib2 and.assoc)

lemma low_nibble_tagged_7: "((b AND 0x0F) OR 0x70) AND 0x0F = b AND (0x0F :: byte)"
  by (simp add: bit.conj_disj_distrib2 and.assoc)

lemma low_six_tagged: "((b AND 0x3F) OR 0x80) AND 0x3F = b AND (0x3F :: byte)"
  by (simp add: bit.conj_disj_distrib2 and.assoc)

lemma high_nibble_tagged_4: "drop_bit 4 ((b AND 0x0F) OR 0x40) = (4 :: byte)"
  by (simp add: drop_bit_or drop_bit_and)

lemma high_nibble_tagged_7: "drop_bit 4 ((b AND 0x0F) OR 0x70) = (7 :: byte)"
  by (simp add: drop_bit_or drop_bit_and)

lemma top_two_tagged: "drop_bit 6 ((b AND 0x3F) OR 0x80) = (2 :: byte)"
  by (simp add: drop_bit_or drop_bit_and)

lemma int_and_not_7: "(n :: int) AND NOT 7 = n - n mod 8"
proof -
  have "n AND NOT (mask 3) = push_bit 3 (drop_bit 3 n)"
    by (rule bit_eqI) (auto simp: bit_simps)
  also have "\<dots> = n div 8 * 8"
    by (simp add: push_bit_eq_mult drop_bit_eq_div)
  also have "\<dots> = n - n mod 8"
    by (simp add: minus_mod_eq_div_mult)
  finally show ?thesis by (simp add: mask_eq_exp_minus_1)
qed

lemma int_and_minus_8: "(n :: int) AND - 8 = n - n mod 8"
  using int_and_not_7 [of n] by simp

lemma int_and_7: "(n :: int) AND 7 = n mod 8"
proof -
  have "n AND mask 3 = take_bit 3 n" by (simp add: take_bit_eq_mask)
  also have "\<dots> = n mod 8" by (simp add: take_bit_eq_mod)
  finally show ?thesis by (simp add: mask_eq_exp_minus_1)
qed

section \<open>The hash returns on every input\<close>

declare sipblocks.simps [simp del]

lemma rd64le_total: "8 \<le> length p \<Longrightarrow> \<exists>m. rd64le p = Some m"
  by (auto simp add: rd64le_def at_def)

lemma sipblocks_total:
  "0 \<le> i \<Longrightarrow> endp \<le> int (length inp) \<Longrightarrow> (endp - i) mod 8 = 0 \<Longrightarrow>
     \<exists>s'. sipblocks inp endp i s = Some s'"
proof (induction inp endp i s rule: sipblocks.induct)
  case (1 inp endp i s)
  show ?case
  proof (cases "i < endp")
    case False
    then have "sipblocks inp endp i s = Some s" by (subst sipblocks.simps) simp
    then show ?thesis by blast
  next
    case True
    with "1.prems" have le: "i + 8 \<le> endp" by presburger
    with "1.prems" have sl: "slice_from inp i = Some (drop (nat i) inp)"
      by (simp add: slice_from_def)
    from le "1.prems" have "8 \<le> length (drop (nat i) inp)" by simp
    then obtain m where m: "rd64le (drop (nat i) inp) = Some m"
      using rd64le_total by blast
    from "1.prems" have "(endp - (i + 8)) mod 8 = 0" by presburger
    with "1.IH" [OF True sl m] "1.prems" obtain s' where
      "sipblocks inp endp (i + 8) (sipblock m s) = Some s'" by auto
    with True sl m have "sipblocks inp endp i s = Some s'"
      by (subst sipblocks.simps) simp
    then show ?thesis by blast
  qed
qed

lemma siptail_total:
  assumes "endp = int (length inp) - int (length inp) mod 8"
    and "sel = int (length inp) mod 8"
  shows "\<exists>t. siptail inp endp sel = Some t"
proof -
  have "0 \<le> sel" "sel < 8" "0 \<le> endp" "endp + sel = int (length inp)"
    using assms by simp_all presburger+
  then show ?thesis
    by (simp add: siptail_def siptail_1_def siptail_2_def siptail_3_def siptail_4_def
        siptail_5_def siptail_6_def siptail_7_def at_def Let_def)
qed

lemma siphash24_total: "\<exists>h. siphash24 inp k0 k1 = Some h"
proof -
  let ?n = "int (length inp)"
  let ?s = "(0x736f6d6570736575 XOR k0, 0x646f72616e646f6d XOR k1,
             0x6c7967656e657261 XOR k0, 0x7465646279746573 XOR k1)"
  have "\<exists>s'. sipblocks inp (?n - ?n mod 8) 0 ?s = Some s'"
  proof (rule sipblocks_total)
    show "(0::int) \<le> 0" by simp
    show "?n - ?n mod 8 \<le> ?n" by simp
    show "(?n - ?n mod 8 - 0) mod 8 = 0" by presburger
  qed
  then obtain v0 v1 v2 v3 where
    blocks: "sipblocks inp (?n - ?n mod 8) 0 ?s = Some (v0, v1, v2, v3)"
    by (metis prod_cases4)
  obtain t where tail: "siptail inp (?n - ?n mod 8) (?n mod 8) = Some t"
    using siptail_total [OF refl refl] by blast
  show ?thesis
    by (simp add: siphash24_def int_and_minus_8 int_and_7 Let_def blocks tail
        split: prod.splits)
qed

section \<open>Explicit forms on sixteen bytes\<close>

lemma length_16_obtain:
  assumes "length (x :: 'a list) = 16"
  obtains b0 b1 b2 b3 b4 b5 b6 b7 b8 b9 b10 b11 b12 b13 b14 b15 where
    "x = [b0, b1, b2, b3, b4, b5, b6, b7, b8, b9, b10, b11, b12, b13, b14, b15]"
  using length_16_explicit [OF assms] by (elim exE) (rule that)


lemma rd48be_explicit:
  "rd48be [s0, s1, s2, s3, s4, s5] =
     Some (push_bit 40 (ucast s0) OR push_bit 32 (ucast s1) OR push_bit 24 (ucast s2) OR
           push_bit 16 (ucast s3) OR push_bit 8 (ucast s4) OR push_bit 0 (ucast s5))"
  by (simp add: rd48be_def at_def)

lemma wr48be_explicit:
  "wr48be [d0, d1, d2, d3, d4, d5] v =
     Some [ucast (drop_bit 40 v), ucast (drop_bit 32 v), ucast (drop_bit 24 v),
           ucast (drop_bit 16 v), ucast (drop_bit 8 v), ucast (drop_bit 0 v)]"
  by (simp add: wr48be_def upd_def)

lemma message_explicit:
  "buildSipInputFromV7 [b0, b1, b2, b3, b4, b5, b6, b7, b8, b9, b10, b11, b12, b13, b14, b15]
     (replicate 10 0) =
   [b6 AND 0x0F, b7, b8 AND 0x3F, b9, b10, b11, b12, b13, b14, b15]"
  by (simp add: buildSipInputFromV7_def Let_def replicate_10)

lemma Encode_explicit:
  assumes "siphash24 [b6 AND 0x0F, b7, b8 AND 0x3F, b9, b10, b11, b12, b13, b14, b15]
             (K0 k) (K1 k) = Some h"
    and "e = (push_bit 40 (ucast b0) OR push_bit 32 (ucast b1) OR push_bit 24 (ucast b2) OR
           push_bit 16 (ucast b3) OR push_bit 8 (ucast b4) OR push_bit 0 (ucast b5)) XOR
           (h AND 0x0000FFFFFFFFFFFF)"
  shows "Encode [b0, b1, b2, b3, b4, b5, b6, b7, b8, b9, b10, b11, b12, b13, b14, b15] k =
     Some [ucast (drop_bit 40 e), ucast (drop_bit 32 e), ucast (drop_bit 24 e),
           ucast (drop_bit 16 e), ucast (drop_bit 8 e), ucast (drop_bit 0 e),
           (b6 AND 0x0F) OR 0x40, b7, (b8 AND 0x3F) OR 0x80,
           b9, b10, b11, b12, b13, b14, b15]"
  using assms
  by (simp add: Encode_def message_explicit rd48be_explicit wr48be_explicit
      setVersion_def SetVersion_def setVariantRFC4122_def SetVariantRFC4122_def)

lemma Decode_explicit:
  assumes "siphash24 [b6 AND 0x0F, b7, b8 AND 0x3F, b9, b10, b11, b12, b13, b14, b15]
             (K0 k) (K1 k) = Some h"
    and "e = (push_bit 40 (ucast b0) OR push_bit 32 (ucast b1) OR push_bit 24 (ucast b2) OR
           push_bit 16 (ucast b3) OR push_bit 8 (ucast b4) OR push_bit 0 (ucast b5)) XOR
           (h AND 0x0000FFFFFFFFFFFF)"
  shows "Decode [b0, b1, b2, b3, b4, b5, b6, b7, b8, b9, b10, b11, b12, b13, b14, b15] k =
     Some [ucast (drop_bit 40 e), ucast (drop_bit 32 e), ucast (drop_bit 24 e),
           ucast (drop_bit 16 e), ucast (drop_bit 8 e), ucast (drop_bit 0 e),
           (b6 AND 0x0F) OR 0x70, b7, (b8 AND 0x3F) OR 0x80,
           b9, b10, b11, b12, b13, b14, b15]"
  using assms
  by (simp add: Decode_def message_explicit rd48be_explicit wr48be_explicit
      setVersion_def SetVersion_def setVariantRFC4122_def SetVariantRFC4122_def)


section \<open>Reading back what was written\<close>

lemma bit_ranges_48:
  "n < 8 \<or> (8 \<le> n \<and> n < 16) \<or> (16 \<le> n \<and> n < 24) \<or> (24 \<le> n \<and> n < 32) \<or>
   (32 \<le> n \<and> n < 40) \<or> (40 \<le> n \<and> n < 48) \<or> 48 \<le> (n::nat)"
  by arith

lemma be48_of_bytes:
  "push_bit 40 (ucast (ucast (drop_bit 40 e) :: byte)) OR
   push_bit 32 (ucast (ucast (drop_bit 32 e) :: byte)) OR
   push_bit 24 (ucast (ucast (drop_bit 24 e) :: byte)) OR
   push_bit 16 (ucast (ucast (drop_bit 16 e) :: byte)) OR
   push_bit 8 (ucast (ucast (drop_bit 8 e) :: byte)) OR
   push_bit 0 (ucast (ucast (drop_bit 0 e) :: byte)) = take_bit 48 (e :: uint64)"
  (is "?l = ?r")
proof (rule bit_word_eqI)
  fix n :: nat
  assume "n < LENGTH(64)"
  from bit_ranges_48 [of n] show "bit ?l n = bit ?r n"
    by (elim disjE) (auto simp add: bit_simps)
qed

lemma be48_below:
  "take_bit 48 (push_bit 40 (ucast (s0::byte)) OR push_bit 32 (ucast (s1::byte)) OR
     push_bit 24 (ucast (s2::byte)) OR push_bit 16 (ucast (s3::byte)) OR
     push_bit 8 (ucast (s4::byte)) OR push_bit 0 (ucast (s5::byte)) :: uint64) =
   push_bit 40 (ucast s0) OR push_bit 32 (ucast s1) OR push_bit 24 (ucast s2) OR
     push_bit 16 (ucast s3) OR push_bit 8 (ucast s4) OR push_bit 0 (ucast s5)"
  (is "take_bit 48 ?v = ?v")
proof (rule bit_word_eqI)
  fix n :: nat
  assume "n < LENGTH(64)"
  show "bit (take_bit 48 ?v) n = bit ?v n"
  proof (cases "n < 48")
    case True
    then show ?thesis by (simp only: bit_take_bit_iff) simp
  next
    case False
    then have "\<not> bit ?v n"
      by (auto simp add: bit_simps dest: bit_imp_le_length)
    with False show ?thesis by (simp only: bit_take_bit_iff) simp
  qed
qed

lemma mask48_below:
  "take_bit 48 (h AND (0x0000FFFFFFFFFFFF :: uint64)) = h AND 0x0000FFFFFFFFFFFF"
proof -
  have "(0x0000FFFFFFFFFFFF :: uint64) = mask 48" by (simp add: mask_eq_exp_minus_1)
  then show ?thesis by (simp add: take_bit_eq_mask)
qed

lemma bytes_of_be48:
  fixes s0 s1 s2 s3 s4 s5 :: byte
  defines "v \<equiv> push_bit 40 (ucast s0) OR push_bit 32 (ucast s1) OR push_bit 24 (ucast s2) OR
     push_bit 16 (ucast s3) OR push_bit 8 (ucast s4) OR push_bit 0 (ucast s5) :: uint64"
  shows "ucast (drop_bit 40 v) = s0" "ucast (drop_bit 32 v) = s1" "ucast (drop_bit 24 v) = s2"
    "ucast (drop_bit 16 v) = s3" "ucast (drop_bit 8 v) = s4" "ucast (drop_bit 0 v) = s5"
  unfolding v_def
  by (rule bit_word_eqI; auto simp: bit_simps dest: bit_imp_le_length)+

lemma rd48be_wr48be:
  assumes "rd48be [s0, s1, s2, s3, s4, s5] = Some t"
  shows "wr48be [d0, d1, d2, d3, d4, d5] t = Some [s0, s1, s2, s3, s4, s5]"
  using assms bytes_of_be48 [of s0 s1 s2 s3 s4 s5]
  by (auto simp add: rd48be_explicit wr48be_explicit)

lemma masked_timestamp_read_back:
  assumes "rd48be [s0, s1, s2, s3, s4, s5] = Some t"
    and "wr48be [d0, d1, d2, d3, d4, d5] (t XOR (h AND 0x0000FFFFFFFFFFFF)) = Some d"
  shows "rd48be d = Some (t XOR (h AND 0x0000FFFFFFFFFFFF))"
proof -
  let ?e = "t XOR (h AND 0x0000FFFFFFFFFFFF)"
  from assms(1) have "take_bit 48 t = t"
    using be48_below [of s0 s1 s2 s3 s4 s5] by (auto simp add: rd48be_explicit)
  moreover have "take_bit 48 ?e = take_bit 48 t XOR take_bit 48 (h AND 0x0000FFFFFFFFFFFF)"
    by (rule take_bit_xor)
  ultimately have "take_bit 48 ?e = ?e"
    by (simp only: mask48_below)
  with assms(2) show ?thesis
    using be48_of_bytes [of ?e] by (auto simp add: rd48be_explicit wr48be_explicit)
qed


lemma xor_twice: "(t XOR m) XOR m = (t :: uint64)"
  by (simp add: xor.assoc)

lemma Decode_Encode_explicit:
  fixes b0 b1 b2 b3 b4 b5 b6 b7 b8 b9 b10 b11 b12 b13 b14 b15 :: byte
  defines "x \<equiv> [b0, b1, b2, b3, b4, b5, b6, b7, b8, b9, b10, b11, b12, b13, b14, b15]"
  shows "\<exists>y. Encode x k = Some y \<and>
     Decode y k = Some [b0, b1, b2, b3, b4, b5, (b6 AND 0x0F) OR 0x70, b7,
                        (b8 AND 0x3F) OR 0x80, b9, b10, b11, b12, b13, b14, b15]"
proof -
  obtain h where h:
    "siphash24 [b6 AND 0x0F, b7, b8 AND 0x3F, b9, b10, b11, b12, b13, b14, b15]
       (K0 k) (K1 k) = Some h"
    using siphash24_total by blast
  obtain t where t: "rd48be [b0, b1, b2, b3, b4, b5] = Some t"
    by (simp add: rd48be_explicit)
  obtain e0 e1 e2 e3 e4 e5 where d:
    "wr48be [b0, b1, b2, b3, b4, b5] (t XOR (h AND 0x0000FFFFFFFFFFFF)) =
       Some [e0, e1, e2, e3, e4, e5]"
    by (simp add: wr48be_explicit)
  have reread: "rd48be [e0, e1, e2, e3, e4, e5] = Some (t XOR (h AND 0x0000FFFFFFFFFFFF))"
    by (rule masked_timestamp_read_back [OF t d])
  have restore: "wr48be [e0, e1, e2, e3, e4, e5] t = Some [b0, b1, b2, b3, b4, b5]"
    by (rule rd48be_wr48be [OF t])
  have enc: "Encode x k = Some [e0, e1, e2, e3, e4, e5, (b6 AND 0x0F) OR 0x40, b7,
      (b8 AND 0x3F) OR 0x80, b9, b10, b11, b12, b13, b14, b15]"
    unfolding x_def using h t d
    by (simp add: Encode_def message_explicit
        setVersion_def SetVersion_def setVariantRFC4122_def SetVariantRFC4122_def)
  have dec: "Decode [e0, e1, e2, e3, e4, e5, (b6 AND 0x0F) OR 0x40, b7,
      (b8 AND 0x3F) OR 0x80, b9, b10, b11, b12, b13, b14, b15] k =
      Some [b0, b1, b2, b3, b4, b5, (b6 AND 0x0F) OR 0x70, b7,
            (b8 AND 0x3F) OR 0x80, b9, b10, b11, b12, b13, b14, b15]"
    using h reread restore
    by (simp add: Decode_def message_explicit low_nibble_tagged_4 low_six_tagged xor_twice
        setVersion_def SetVersion_def setVariantRFC4122_def SetVariantRFC4122_def)
  from enc dec show ?thesis by simp
qed


section \<open>The fields of the results\<close>

lemma Encode_fields:
  assumes "length x = 16"
  shows "\<exists>y. Encode x k = Some y \<and> length y = 16 \<and>
           y ! 6 = (x ! 6 AND 0x0F) OR 0x40 \<and> y ! 7 = x ! 7 \<and>
           y ! 8 = (x ! 8 AND 0x3F) OR 0x80 \<and> drop 9 y = drop 9 x"
proof -
  from assms obtain b0 b1 b2 b3 b4 b5 b6 b7 b8 b9 b10 b11 b12 b13 b14 b15 where
    x: "x = [b0, b1, b2, b3, b4, b5, b6, b7, b8, b9, b10, b11, b12, b13, b14, b15]"
    by (rule length_16_obtain)
  obtain h where
    "siphash24 [b6 AND 0x0F, b7, b8 AND 0x3F, b9, b10, b11, b12, b13, b14, b15]
       (K0 k) (K1 k) = Some h"
    using siphash24_total by blast
  from Encode_explicit [OF this refl, of b0 b1 b2 b3 b4 b5] show ?thesis
    unfolding x by simp
qed

lemma Decode_fields:
  assumes "length x = 16"
  shows "\<exists>y. Decode x k = Some y \<and> length y = 16 \<and>
           y ! 6 = (x ! 6 AND 0x0F) OR 0x70 \<and> y ! 7 = x ! 7 \<and>
           y ! 8 = (x ! 8 AND 0x3F) OR 0x80 \<and> drop 9 y = drop 9 x"
proof -
  from assms obtain b0 b1 b2 b3 b4 b5 b6 b7 b8 b9 b10 b11 b12 b13 b14 b15 where
    x: "x = [b0, b1, b2, b3, b4, b5, b6, b7, b8, b9, b10, b11, b12, b13, b14, b15]"
    by (rule length_16_obtain)
  obtain h where
    "siphash24 [b6 AND 0x0F, b7, b8 AND 0x3F, b9, b10, b11, b12, b13, b14, b15]
       (K0 k) (K1 k) = Some h"
    using siphash24_total by blast
  from Decode_explicit [OF this refl, of b0 b1 b2 b3 b4 b5] show ?thesis
    unfolding x by simp
qed

lemma message_is_rand_bits:
  "length x = 16 \<Longrightarrow> buildSipInputFromV7 x (replicate 10 0) = rand_bits x"
  by (erule length_16_obtain) (simp add: message_explicit rand_bits_def)

lemma rand_bits_cong:
  assumes "y ! 6 AND 0x0F = x ! 6 AND 0x0F" "y ! 7 = x ! 7"
    "y ! 8 AND 0x3F = x ! 8 AND 0x3F" "drop 9 y = drop 9 x"
  shows "rand_bits y = rand_bits x"
  using assms by (simp add: rand_bits_def)


section \<open>Evaluating the hash\<close>

text \<open>
  Rules that compute \<open>siphash24\<close> on literals one assignment at a time; each sum and
  each rotation is reduced to a 64-bit literal before the next one uses it.
\<close>

lemma rotl64_eval:
  "rotl64 x b = word_of_int (uint (push_bit (unat b) x)) OR drop_bit (unat (64 - b)) x"
  by (simp add: rotl64_def)

lemma sipround_eval:
  assumes "word_of_int (uint (v0 + v1)) = a0"
      and "word_of_int (uint (v2 + v3)) = a2"
      and "rotl64 v1 13 XOR a0 = a1"
      and "rotl64 v3 16 XOR a2 = a3"
      and "rotl64 a0 32 = b0"
      and "word_of_int (uint (a2 + a1)) = b2"
      and "word_of_int (uint (b0 + a3)) = c0"
      and "rotl64 a1 17 XOR b2 = c1"
      and "rotl64 a3 21 XOR c0 = c3"
      and "rotl64 b2 32 = c2"
    shows "sipround (v0, v1, v2, v3) = (c0, c1, c2, c3)"
  using assms by (auto simp add: sipround_def Let_def)

lemma sipblock_eval:
  assumes "sipround (sipround (v0, v1, v2, v3 XOR m)) = (a0, a1, a2, a3)"
  shows "sipblock m (v0, v1, v2, v3) = (a0 XOR m, a1, a2, a3)"
  using assms by (simp add: sipblock_def Let_def)

lemma sipblocks_step:
  assumes "i < endp" and "slice_from inp i = Some p" and "rd64le p = Some m"
    and "sipblock m s = s'" and "sipblocks inp endp (i + 8) s' = r"
  shows "sipblocks inp endp i s = r"
  using assms by (subst sipblocks.simps) simp

lemma sipblocks_done: "\<not> i < endp \<Longrightarrow> sipblocks inp endp i s = Some s"
  by (subst sipblocks.simps) simp

lemma siphash24_eval:
  assumes "int (length inp) = n"
    and "sipblocks inp (n AND NOT 7) 0
           (0x736f6d6570736575 XOR k0, 0x646f72616e646f6d XOR k1,
            0x6c7967656e657261 XOR k0, 0x7465646279746573 XOR k1) = Some (v0, v1, v2, v3)"
    and "siptail inp (n AND NOT 7) (n AND 7) = Some t"
    and "push_bit 56 (word_of_int n) OR t = b"
    and "sipround (sipround (v0, v1, v2, v3 XOR b)) = (w0, w1, w2, w3)"
    and "sipround (sipround (sipround (sipround (w0 XOR b, w1, w2 XOR 0xff, w3)))) =
           (x0, x1, x2, x3)"
  shows "siphash24 inp k0 k1 = Some (x0 XOR x1 XOR x2 XOR x3)"
  using assms by (auto simp add: siphash24_def Let_def)

lemmas sip_eval = siphash24_eval sipblocks_step sipblocks_done sipblock_eval sipround_eval
  rotl64_eval siptail_def siptail_1_def siptail_2_def siptail_3_def siptail_4_def
  siptail_5_def siptail_6_def siptail_7_def slice_from_def rd64le_def at_def


lemma siphash24_vector_0:
  "siphash24 (take 0 test_msg) test_k0 test_k1 = Some 0x726fdb47dd0e0e31"
  by (simp add: test_msg_def test_k0_def test_k1_def sip_eval)

lemma expected_vector_0: "leU64 (vbytes ! 0) = Some 0x726fdb47dd0e0e31"
  by (simp add: leU64_def vbytes_def rd64le_def at_def)

lemma siphash24_vector_1:
  "siphash24 (take 1 test_msg) test_k0 test_k1 = Some 0x74f839c593dc67fd"
  by (simp add: test_msg_def test_k0_def test_k1_def sip_eval)

lemma expected_vector_1: "leU64 (vbytes ! 1) = Some 0x74f839c593dc67fd"
  by (simp add: leU64_def vbytes_def rd64le_def at_def)

lemma siphash24_vector_2:
  "siphash24 (take 2 test_msg) test_k0 test_k1 = Some 0x0d6c8009d9a94f5a"
  by (simp add: test_msg_def test_k0_def test_k1_def sip_eval)

lemma expected_vector_2: "leU64 (vbytes ! 2) = Some 0x0d6c8009d9a94f5a"
  by (simp add: leU64_def vbytes_def rd64le_def at_def)

lemma siphash24_vector_3:
  "siphash24 (take 3 test_msg) test_k0 test_k1 = Some 0x85676696d7fb7e2d"
  by (simp add: test_msg_def test_k0_def test_k1_def sip_eval)

lemma expected_vector_3: "leU64 (vbytes ! 3) = Some 0x85676696d7fb7e2d"
  by (simp add: leU64_def vbytes_def rd64le_def at_def)

lemma siphash24_vector_4:
  "siphash24 (take 4 test_msg) test_k0 test_k1 = Some 0xcf2794e0277187b7"
  by (simp add: test_msg_def test_k0_def test_k1_def sip_eval)

lemma expected_vector_4: "leU64 (vbytes ! 4) = Some 0xcf2794e0277187b7"
  by (simp add: leU64_def vbytes_def rd64le_def at_def)

lemma siphash24_vector_5:
  "siphash24 (take 5 test_msg) test_k0 test_k1 = Some 0x18765564cd99a68d"
  by (simp add: test_msg_def test_k0_def test_k1_def sip_eval)

lemma expected_vector_5: "leU64 (vbytes ! 5) = Some 0x18765564cd99a68d"
  by (simp add: leU64_def vbytes_def rd64le_def at_def)

lemma siphash24_vector_6:
  "siphash24 (take 6 test_msg) test_k0 test_k1 = Some 0xcbc9466e58fee3ce"
  by (simp add: test_msg_def test_k0_def test_k1_def sip_eval)

lemma expected_vector_6: "leU64 (vbytes ! 6) = Some 0xcbc9466e58fee3ce"
  by (simp add: leU64_def vbytes_def rd64le_def at_def)

lemma siphash24_vector_7:
  "siphash24 (take 7 test_msg) test_k0 test_k1 = Some 0xab0200f58b01d137"
  by (simp add: test_msg_def test_k0_def test_k1_def sip_eval)

lemma expected_vector_7: "leU64 (vbytes ! 7) = Some 0xab0200f58b01d137"
  by (simp add: leU64_def vbytes_def rd64le_def at_def)

lemma siphash24_vector_8:
  "siphash24 (take 8 test_msg) test_k0 test_k1 = Some 0x93f5f5799a932462"
  by (simp add: test_msg_def test_k0_def test_k1_def sip_eval)

lemma expected_vector_8: "leU64 (vbytes ! 8) = Some 0x93f5f5799a932462"
  by (simp add: leU64_def vbytes_def rd64le_def at_def)

lemma siphash24_vector_9:
  "siphash24 (take 9 test_msg) test_k0 test_k1 = Some 0x9e0082df0ba9e4b0"
  by (simp add: test_msg_def test_k0_def test_k1_def sip_eval)

lemma expected_vector_9: "leU64 (vbytes ! 9) = Some 0x9e0082df0ba9e4b0"
  by (simp add: leU64_def vbytes_def rd64le_def at_def)

lemma siphash24_vector_10:
  "siphash24 (take 10 test_msg) test_k0 test_k1 = Some 0x7a5dbbc594ddb9f3"
  by (simp add: test_msg_def test_k0_def test_k1_def sip_eval)

lemma expected_vector_10: "leU64 (vbytes ! 10) = Some 0x7a5dbbc594ddb9f3"
  by (simp add: leU64_def vbytes_def rd64le_def at_def)

lemma siphash24_vector_11:
  "siphash24 (take 11 test_msg) test_k0 test_k1 = Some 0xf4b32f46226bada7"
  by (simp add: test_msg_def test_k0_def test_k1_def sip_eval)

lemma expected_vector_11: "leU64 (vbytes ! 11) = Some 0xf4b32f46226bada7"
  by (simp add: leU64_def vbytes_def rd64le_def at_def)

lemma siphash24_vector_12:
  "siphash24 (take 12 test_msg) test_k0 test_k1 = Some 0x751e8fbc860ee5fb"
  by (simp add: test_msg_def test_k0_def test_k1_def sip_eval)

lemma expected_vector_12: "leU64 (vbytes ! 12) = Some 0x751e8fbc860ee5fb"
  by (simp add: leU64_def vbytes_def rd64le_def at_def)

lemma siphash24_vector_13:
  "siphash24 (take 13 test_msg) test_k0 test_k1 = Some 0x14ea5627c0843d90"
  by (simp add: test_msg_def test_k0_def test_k1_def sip_eval)

lemma expected_vector_13: "leU64 vbytes_13 = Some 0x14ea5627c0843d90"
  by (simp add: leU64_def vbytes_13_def rd64le_def at_def)


lemma example_mask:
  "siphash24 [0x0d, 0xef, 0x0c, 0x3f, 0x7b, 0x1a, 0x2c, 0x4d, 0x5e, 0x6f]
     0x0123456789abcdef 0xfedcba9876543210 = Some 0xb72c25ecea1fe5e0"
  by (simp add: sip_eval)


section \<open>The loop of Parse\<close>

declare Parse_loop.simps [simp del]

lemma Parse_pos_range: "0 \<le> i \<Longrightarrow> i < 16 \<Longrightarrow> 0 \<le> Parse_pos i \<and> Parse_pos i + 1 < 36"
  by (simp add: Parse_pos_def)

lemma Parse_loop_step:
  assumes "length s = 36" "length out = 16" "0 \<le> i" "i < 16"
  shows "Parse_loop s i out =
     (if Parse_digits_ok s i then Parse_loop s (i + 1) (out[nat i := Parse_byte s i])
      else Some (UUID_zero, Some ErrInvalidHex))"
  using assms Parse_pos_range [of i]
  by (subst Parse_loop.simps)
     (auto simp add: at_def upd_def Let_def Parse_digits_ok_def Parse_byte_def)

lemma Parse_loop_end: "Parse_loop s 16 out = Some (out, None)"
  by (subst Parse_loop.simps) simp

lemma Parse_loop_result:
  assumes "length s = 36"
  shows "length out = 16 \<Longrightarrow> 0 \<le> i \<Longrightarrow> i \<le> 16 \<Longrightarrow>
     Parse_loop s i out =
     (if list_all (Parse_digits_ok s) [i..15]
      then Some (fold (\<lambda>k out. out[nat k := Parse_byte s k]) [i..15] out, None)
      else Some (UUID_zero, Some ErrInvalidHex))"
proof (induction "nat (16 - i)" arbitrary: i out)
  case 0
  then have "i = 16" by simp
  then show ?case by (simp add: Parse_loop_end)
next
  case (Suc n)
  then have i: "i < 16" and n: "n = nat (16 - (i + 1))" by simp_all
  then have upto: "[i..15] = i # [i + 1..15]" by (simp add: upto_rec1)
  from Suc.prems i have
    "Parse_loop s (i + 1) (out[nat i := Parse_byte s i]) =
       (if list_all (Parse_digits_ok s) [i + 1..15]
        then Some (fold (\<lambda>k out. out[nat k := Parse_byte s k]) [i + 1..15]
                     (out[nat i := Parse_byte s i]), None)
        else Some (UUID_zero, Some ErrInvalidHex))"
    by (intro Suc.hyps(1) [OF n]) simp_all
  with assms Suc.prems i show ?case
    by (simp add: Parse_loop_step upto)
qed

lemma Parse_cases:
  "Parse s =
     (if length s \<noteq> 36 then Some (UUID_zero, Some ErrInvalidLength)
      else if \<not> hyphens_placed s then Some (UUID_zero, Some ErrInvalidFormat)
      else if \<not> list_all (Parse_digits_ok s) [0..15] then Some (UUID_zero, Some ErrInvalidHex)
      else Some (fold (\<lambda>k out. out[nat k := Parse_byte s k]) [0..15] UUID_zero, None))"
proof (cases "length s = 36")
  case False
  then show ?thesis by (simp add: Parse_def)
next
  case True
  then have "Parse s =
      (if \<not> hyphens_placed s then Some (UUID_zero, Some ErrInvalidFormat)
       else Parse_loop s 0 UUID_zero)"
    by (simp add: Parse_def orelse_def at_def hyphens_placed_def hyphen_offsets_def)
  moreover have "length UUID_zero = 16" by (simp add: UUID_zero_def)
  ultimately show ?thesis
    using True by (simp add: Parse_loop_result)
qed

lemma hexval_nonneg: "0 \<le> hexval c \<longleftrightarrow> hex_char c"
  by (simp add: hexval_def hex_char_def)

lemma upto_0_15: "[0..15] = [0, 1, 2, 3, 4, 5, 6, 7, 8, 9, 10, 11, 12, 13, 14, 15 :: int]"
  by (simp add: upto.simps [of 0] upto.simps [of 1])

lemma data_offsets_explicit:
  "data_offsets = [0, 1, 2, 3, 4, 5, 6, 7, 9, 10, 11, 12, 14, 15, 16, 17, 19, 20, 21, 22,
     24, 25, 26, 27, 28, 29, 30, 31, 32, 33, 34, 35]"
  by code_simp

lemma digits_ok_iff: "list_all (Parse_digits_ok s) [0..15] \<longleftrightarrow> hex_at_data s"
  by (simp add: Parse_digits_ok_def Parse_pos_def hexval_nonneg hex_at_data_def
      data_offsets_explicit upto_0_15)

lemma length_fold_update:
  "length (fold (\<lambda>k out. out[nat k := f k]) ks out) = length out"
  by (induction ks arbitrary: out) simp_all

lemma Parse_success_length:
  assumes "Parse s = Some (u, None)"
  shows "length u = 16"
  using assms
  by (auto simp add: Parse_cases length_fold_update UUID_zero_def split: if_splits)

lemmas text_eval = canonical_text_def hyphens_placed_def hyphen_offsets_def hex_at_data_def
  data_offsets_explicit hex_char_def

section \<open>The loop of String\<close>

declare String_loop.simps [simp del]

lemma nibble_uint_below_16: "uint (x AND (0xF :: byte)) < 16"
proof -
  have "(0xF :: byte) = mask 4" by (simp add: mask_eq_exp_minus_1)
  then have "x AND 0xF = take_bit 4 x" by (simp add: take_bit_eq_mask)
  then have "uint (x AND 0xF) = take_bit 4 (uint x)" by (simp add: unsigned_take_bit_eq)
  also have "\<dots> < 2 ^ 4" by (rule take_bit_int_less_exp)
  finally show ?thesis by simp
qed

lemma nibble_below_16: "unat (x AND (0xF :: byte)) < 16"
proof -
  have "int (unat (x AND 0xF)) < 16"
    using nibble_uint_below_16 [of x] by (simp only: uint_nat)
  then show ?thesis by linarith
qed

lemma at_hexd: "at hexd (uint (x AND (0xF :: byte))) = Some (hexd ! unat (x AND 0xF))"
  using nibble_uint_below_16 [of x] by (simp add: at_def hexd_def)

lemma replicate_36:
  "replicate 36 x = [x, x, x, x, x, x, x, x, x, x, x, x, x, x, x, x, x, x,
                      x, x, x, x, x, x, x, x, x, x, x, x, x, x, x, x, x, x]"
  by (simp add: numeral_eq_Suc)

lemma String_loop_step:
  assumes "i < 16" and "at u i = Some x"
  shows "String_loop u i j buf =
     (if i = 4 \<or> i = 6 \<or> i = 8 \<or> i = 10
      then do {
        buf \<leftarrow> upd buf j (ch CHR ''-'');
        buf \<leftarrow> upd buf (j + 1) (hexd ! unat (drop_bit 4 x AND 0xF));
        buf \<leftarrow> upd buf (j + 2) (hexd ! unat (x AND 0xF));
        String_loop u (i + 1) (j + 3) buf
      }
      else do {
        buf \<leftarrow> upd buf j (hexd ! unat (drop_bit 4 x AND 0xF));
        buf \<leftarrow> upd buf (j + 1) (hexd ! unat (x AND 0xF));
        String_loop u (i + 1) (j + 2) buf
      })"
  using assms
  by (subst String_loop.simps)
     (simp add: orelse_def dpos_def at_def [of "[4, 6, 8, 10]"] at_hexd Let_def
        add.commute [of _ j])

lemma String_loop_end: "String_loop u 16 j buf = Some buf"
  by (subst String_loop.simps) simp


lemma String_explicit:
  "String [b0, b1, b2, b3, b4, b5, b6, b7, b8, b9, b10, b11, b12, b13, b14, b15] =
   Some
      [hexd ! unat (drop_bit 4 b0 AND 15), hexd ! unat (b0 AND 15),
       hexd ! unat (drop_bit 4 b1 AND 15), hexd ! unat (b1 AND 15),
       hexd ! unat (drop_bit 4 b2 AND 15), hexd ! unat (b2 AND 15),
       hexd ! unat (drop_bit 4 b3 AND 15), hexd ! unat (b3 AND 15), ch CHR ''-'',
       hexd ! unat (drop_bit 4 b4 AND 15), hexd ! unat (b4 AND 15),
       hexd ! unat (drop_bit 4 b5 AND 15), hexd ! unat (b5 AND 15), ch CHR ''-'',
       hexd ! unat (drop_bit 4 b6 AND 15), hexd ! unat (b6 AND 15),
       hexd ! unat (drop_bit 4 b7 AND 15), hexd ! unat (b7 AND 15), ch CHR ''-'',
       hexd ! unat (drop_bit 4 b8 AND 15), hexd ! unat (b8 AND 15),
       hexd ! unat (drop_bit 4 b9 AND 15), hexd ! unat (b9 AND 15), ch CHR ''-'',
       hexd ! unat (drop_bit 4 b10 AND 15), hexd ! unat (b10 AND 15),
       hexd ! unat (drop_bit 4 b11 AND 15), hexd ! unat (b11 AND 15),
       hexd ! unat (drop_bit 4 b12 AND 15), hexd ! unat (b12 AND 15),
       hexd ! unat (drop_bit 4 b13 AND 15), hexd ! unat (b13 AND 15),
       hexd ! unat (drop_bit 4 b14 AND 15), hexd ! unat (b14 AND 15),
       hexd ! unat (drop_bit 4 b15 AND 15), hexd ! unat (b15 AND 15)]"
  by (simp add: String_def replicate_36 String_loop_step String_loop_end at_def upd_def)

lemma hexval_hexd_index: "n < 16 \<Longrightarrow> hexval (hexd ! n) = int n"
proof -
  have "list_all (\<lambda>n. hexval (hexd ! n) = int n) [0..<16]"
    by code_simp
  then have "\<forall>n \<in> set [0..<16]. hexval (hexd ! n) = int n"
    by (simp only: list_all_iff)
  then show "n < 16 \<Longrightarrow> hexval (hexd ! n) = int n" by simp
qed

lemma lower_hex_hexd_index: "n < 16 \<Longrightarrow> lower_hex_char (hexd ! n)"
proof -
  have "list_all (\<lambda>n. lower_hex_char (hexd ! n)) [0..<16]"
    by code_simp
  then have "\<forall>n \<in> set [0..<16]. lower_hex_char (hexd ! n)"
    by (simp only: list_all_iff)
  then show "n < 16 \<Longrightarrow> lower_hex_char (hexd ! n)" by simp
qed

lemma hexval_hexd: "hexval (hexd ! unat (x AND (15 :: byte))) = uint (x AND 15)"
  using hexval_hexd_index [OF nibble_below_16 [of x]] by simp

lemma lower_hex_hexd: "lower_hex_char (hexd ! unat (x AND (15 :: byte)))"
  using lower_hex_hexd_index [OF nibble_below_16 [of x]] by simp

lemma byte_of_nibbles:
  "word_of_int (push_bit 4 (uint (drop_bit 4 b AND 15)) OR uint (b AND 15)) = (b :: byte)"
proof -
  have m: "(15 :: byte) = mask 4" by (simp add: mask_eq_exp_minus_1)
  have "word_of_int (push_bit 4 (uint (drop_bit 4 b AND 15)) OR uint (b AND 15)) =
      push_bit 4 (drop_bit 4 b AND mask 4) OR (b AND mask 4)"
    by (simp add: m of_int_or_eq of_int_push_bit)
  also have "\<dots> = b"
    by (rule bit_word_eqI) (auto simp add: bit_simps)
  finally show ?thesis .
qed

lemma copy_same_length: "length dst = length src \<Longrightarrow> copy dst src = src"
  by (simp add: copy_def)

section \<open>The claims\<close>

text \<open>
  C1. For every 128-bit UUID \<open>x\<close> and every key \<open>k\<close>, \<open>Decode (Encode x k) k\<close> has the
  timestamp field (bytes 0 to 5) and all the rand_a and rand_b bits of \<open>x\<close>; its version
  nibble and variant bits are canonical (version 7, variant binary 10), not those of
  \<open>x\<close>: the result is \<open>x\<close> with the version set to 7 and the variant set.
\<close>

theorem Decode_Encode_roundtrip:
  assumes "length x = 16"
  shows "\<exists>y z. Encode x k = Some y \<and> Decode y k = Some z \<and> length z = 16 \<and>
           timestamp_field z = timestamp_field x \<and> rand_bits z = rand_bits x \<and>
           Version z = 7 \<and> version_nibble z = 7 \<and> variant_bits z = 2 \<and>
           z = SetVariantRFC4122 (SetVersion x 7)"
proof -
  from assms obtain b0 b1 b2 b3 b4 b5 b6 b7 b8 b9 b10 b11 b12 b13 b14 b15 where
    x: "x = [b0, b1, b2, b3, b4, b5, b6, b7, b8, b9, b10, b11, b12, b13, b14, b15]"
    by (rule length_16_obtain)
  let ?z = "[b0, b1, b2, b3, b4, b5, (b6 AND 0x0F) OR 0x70, b7,
             (b8 AND 0x3F) OR 0x80, b9, b10, b11, b12, b13, b14, b15]"
  from Decode_Encode_explicit [of b0 b1 b2 b3 b4 b5 b6 b7 b8 b9 b10 b11 b12 b13 b14 b15 k]
  obtain y where "Encode x k = Some y" "Decode y k = Some ?z"
    unfolding x by blast
  moreover have "length ?z = 16" by simp
  moreover have "timestamp_field ?z = timestamp_field x"
    by (simp add: timestamp_field_def x)
  moreover have "rand_bits ?z = rand_bits x"
    by (simp add: rand_bits_def x low_nibble_tagged_7 low_six_tagged)
  moreover have "Version ?z = 7" "version_nibble ?z = 7" "variant_bits ?z = 2"
    by (simp_all add: Version_def version_nibble_def variant_bits_def high_nibble_tagged_7
        top_two_tagged)
  moreover have "?z = SetVariantRFC4122 (SetVersion x 7)"
    by (simp add: SetVersion_def SetVariantRFC4122_def x)
  ultimately show ?thesis by blast
qed


theorem Decode_Encode_roundtrip_witness:
  "length example_v7 = 16 \<and>
   (\<exists>y z. Encode example_v7 example_key = Some y \<and> Decode y example_key = Some z \<and>
      length z = 16 \<and> timestamp_field z = timestamp_field example_v7 \<and>
      rand_bits z = rand_bits example_v7 \<and> Version z = 7 \<and> version_nibble z = 7 \<and>
      variant_bits z = 2 \<and> z = SetVariantRFC4122 (SetVersion example_v7 7))"
proof -
  have len: "length example_v7 = 16" by (simp add: example_v7_def)
  from len Decode_Encode_roundtrip [OF len, of example_key] show ?thesis by (rule conjI)
qed

text \<open>
  C2. With the test key \<open>k0 = 0x0706050403020100\<close>, \<open>k1 = 0x0f0e0d0c0b0a0908\<close> and
  the message \<open>[0, 1, ..., L - 1]\<close>, \<open>siphash24\<close> returns the published SipHash-2-4
  value for every length \<open>L\<close> from 0 to 13: the thirteen values of the test's table,
  read as little-endian, and the table's next entry for \<open>L = 13\<close>.
\<close>

theorem siphash24_reference_vectors:
  "(\<exists>h. siphash24 (take 0 test_msg) test_k0 test_k1 = Some h \<and>
      leU64 (vbytes ! 0) = Some h) \<and>
   (\<exists>h. siphash24 (take 1 test_msg) test_k0 test_k1 = Some h \<and>
      leU64 (vbytes ! 1) = Some h) \<and>
   (\<exists>h. siphash24 (take 2 test_msg) test_k0 test_k1 = Some h \<and>
      leU64 (vbytes ! 2) = Some h) \<and>
   (\<exists>h. siphash24 (take 3 test_msg) test_k0 test_k1 = Some h \<and>
      leU64 (vbytes ! 3) = Some h) \<and>
   (\<exists>h. siphash24 (take 4 test_msg) test_k0 test_k1 = Some h \<and>
      leU64 (vbytes ! 4) = Some h) \<and>
   (\<exists>h. siphash24 (take 5 test_msg) test_k0 test_k1 = Some h \<and>
      leU64 (vbytes ! 5) = Some h) \<and>
   (\<exists>h. siphash24 (take 6 test_msg) test_k0 test_k1 = Some h \<and>
      leU64 (vbytes ! 6) = Some h) \<and>
   (\<exists>h. siphash24 (take 7 test_msg) test_k0 test_k1 = Some h \<and>
      leU64 (vbytes ! 7) = Some h) \<and>
   (\<exists>h. siphash24 (take 8 test_msg) test_k0 test_k1 = Some h \<and>
      leU64 (vbytes ! 8) = Some h) \<and>
   (\<exists>h. siphash24 (take 9 test_msg) test_k0 test_k1 = Some h \<and>
      leU64 (vbytes ! 9) = Some h) \<and>
   (\<exists>h. siphash24 (take 10 test_msg) test_k0 test_k1 = Some h \<and>
      leU64 (vbytes ! 10) = Some h) \<and>
   (\<exists>h. siphash24 (take 11 test_msg) test_k0 test_k1 = Some h \<and>
      leU64 (vbytes ! 11) = Some h) \<and>
   (\<exists>h. siphash24 (take 12 test_msg) test_k0 test_k1 = Some h \<and>
      leU64 (vbytes ! 12) = Some h) \<and>
   (\<exists>h. siphash24 (take 13 test_msg) test_k0 test_k1 = Some h \<and>
      leU64 vbytes_13 = Some h)"
  unfolding siphash24_vector_0 siphash24_vector_1 siphash24_vector_2 siphash24_vector_3
    siphash24_vector_4 siphash24_vector_5 siphash24_vector_6 siphash24_vector_7
    siphash24_vector_8 siphash24_vector_9 siphash24_vector_10 siphash24_vector_11
    siphash24_vector_12 siphash24_vector_13
    expected_vector_0 expected_vector_1 expected_vector_2 expected_vector_3
    expected_vector_4 expected_vector_5 expected_vector_6 expected_vector_7
    expected_vector_8 expected_vector_9 expected_vector_10 expected_vector_11
    expected_vector_12 expected_vector_13
  by simp

text \<open>
  C3. For every UUID and every key, whatever the version and variant fields of the
  input: the output of \<open>Encode\<close> has version nibble 4 and variant bits binary 10, and
  the output of \<open>Decode\<close> has version nibble 7 and variant bits binary 10.
\<close>

theorem Encode_Decode_tags:
  assumes "length x = 16"
  shows "(\<exists>y. Encode x k = Some y \<and> Version y = 4 \<and> version_nibble y = 4 \<and>
              variant_bits y = 2) \<and>
         (\<exists>z. Decode x k = Some z \<and> Version z = 7 \<and> version_nibble z = 7 \<and>
              variant_bits z = 2)"
proof
  from Encode_fields [OF assms, of k] obtain y where
    "Encode x k = Some y" "y ! 6 = (x ! 6 AND 0x0F) OR 0x40" "y ! 8 = (x ! 8 AND 0x3F) OR 0x80"
    by blast
  then show "\<exists>y. Encode x k = Some y \<and> Version y = 4 \<and> version_nibble y = 4 \<and>
      variant_bits y = 2"
    by (simp add: Version_def version_nibble_def variant_bits_def high_nibble_tagged_4
        top_two_tagged)
  from Decode_fields [OF assms, of k] obtain z where
    "Decode x k = Some z" "z ! 6 = (x ! 6 AND 0x0F) OR 0x70" "z ! 8 = (x ! 8 AND 0x3F) OR 0x80"
    by blast
  then show "\<exists>z. Decode x k = Some z \<and> Version z = 7 \<and> version_nibble z = 7 \<and>
      variant_bits z = 2"
    by (simp add: Version_def version_nibble_def variant_bits_def high_nibble_tagged_7
        top_two_tagged)
qed


theorem Encode_Decode_tags_witness:
  "length example_facade = 16 \<and>
   ((\<exists>y. Encode example_facade example_key = Some y \<and> Version y = 4 \<and>
       version_nibble y = 4 \<and> variant_bits y = 2) \<and>
    (\<exists>z. Decode example_facade example_key = Some z \<and> Version z = 7 \<and>
       version_nibble z = 7 \<and> variant_bits z = 2))"
proof -
  have len: "length example_facade = 16" by (simp add: example_facade_def)
  from len Encode_Decode_tags [OF len, of example_key] show ?thesis by (rule conjI)
qed

text \<open>
  C4. For every UUID \<open>x\<close> and key \<open>k\<close>, \<open>Encode x k\<close> differs from \<open>x\<close> only in
  bytes 0 to 5, the high nibble of byte 6 and the top two bits of byte 8: the low nibble
  of byte 6, byte 7, the low six bits of byte 8 and bytes 9 to 15 are those of \<open>x\<close>.
\<close>

theorem Encode_keeps_rand_bits:
  assumes "length x = 16"
  shows "\<exists>y. Encode x k = Some y \<and> length y = 16 \<and>
           y ! 6 AND 0x0F = x ! 6 AND 0x0F \<and> y ! 7 = x ! 7 \<and>
           y ! 8 AND 0x3F = x ! 8 AND 0x3F \<and>
           y ! 9 = x ! 9 \<and> y ! 10 = x ! 10 \<and> y ! 11 = x ! 11 \<and> y ! 12 = x ! 12 \<and>
           y ! 13 = x ! 13 \<and> y ! 14 = x ! 14 \<and> y ! 15 = x ! 15 \<and>
           rand_bits y = rand_bits x"
proof -
  from assms obtain b0 b1 b2 b3 b4 b5 b6 b7 b8 b9 b10 b11 b12 b13 b14 b15 where
    x: "x = [b0, b1, b2, b3, b4, b5, b6, b7, b8, b9, b10, b11, b12, b13, b14, b15]"
    by (rule length_16_obtain)
  obtain h where
    "siphash24 [b6 AND 0x0F, b7, b8 AND 0x3F, b9, b10, b11, b12, b13, b14, b15]
       (K0 k) (K1 k) = Some h"
    using siphash24_total by blast
  from Encode_explicit [OF this refl, of b0 b1 b2 b3 b4 b5] show ?thesis
    unfolding x by (simp add: rand_bits_def low_nibble_tagged_4 low_six_tagged)
qed

theorem Encode_keeps_rand_bits_witness:
  "length example_v7 = 16 \<and>
   (\<exists>y. Encode example_v7 example_key = Some y \<and> length y = 16 \<and>
      y ! 6 AND 0x0F = example_v7 ! 6 AND 0x0F \<and> y ! 7 = example_v7 ! 7 \<and>
      y ! 8 AND 0x3F = example_v7 ! 8 AND 0x3F \<and>
      y ! 9 = example_v7 ! 9 \<and> y ! 10 = example_v7 ! 10 \<and> y ! 11 = example_v7 ! 11 \<and>
      y ! 12 = example_v7 ! 12 \<and> y ! 13 = example_v7 ! 13 \<and> y ! 14 = example_v7 ! 14 \<and>
      y ! 15 = example_v7 ! 15 \<and> rand_bits y = rand_bits example_v7)"
proof -
  have len: "length example_v7 = 16" by (simp add: example_v7_def)
  from len Encode_keeps_rand_bits [OF len, of example_key] show ?thesis by (rule conjI)
qed

text \<open>
  C5. For every UUID \<open>x\<close> and key \<open>k\<close>, the ten-byte message of the mask derivation
  (\<open>msg[0] = byte6 & 0x0F\<close>, \<open>msg[1] = byte7\<close>, \<open>msg[2] = byte8 & 0x3F\<close>,
  \<open>msg[3..9] = bytes 9..15\<close>) computed from \<open>Encode x k\<close> is the one computed from
  \<open>x\<close>, and likewise for \<open>Decode x k\<close>; so both directions derive the same mask.
\<close>

theorem sip_message_stable:
  assumes "length x = 16"
  shows "buildSipInputFromV7 x (replicate 10 0) =
           [x ! 6 AND 0x0F, x ! 7, x ! 8 AND 0x3F, x ! 9, x ! 10, x ! 11, x ! 12, x ! 13,
            x ! 14, x ! 15] \<and>
         (\<exists>y. Encode x k = Some y \<and>
            buildSipInputFromV7 y (replicate 10 0) = buildSipInputFromV7 x (replicate 10 0) \<and>
            mask48 y k = mask48 x k) \<and>
         (\<exists>z. Decode x k = Some z \<and>
            buildSipInputFromV7 z (replicate 10 0) = buildSipInputFromV7 x (replicate 10 0) \<and>
            mask48 z k = mask48 x k)"
proof (intro conjI)
  from assms show "buildSipInputFromV7 x (replicate 10 0) =
      [x ! 6 AND 0x0F, x ! 7, x ! 8 AND 0x3F, x ! 9, x ! 10, x ! 11, x ! 12, x ! 13,
       x ! 14, x ! 15]"
    by (elim length_16_obtain) (simp add: message_explicit)
  from Encode_fields [OF assms, of k] obtain y where y:
    "Encode x k = Some y" "length y = 16" "y ! 6 = (x ! 6 AND 0x0F) OR 0x40" "y ! 7 = x ! 7"
    "y ! 8 = (x ! 8 AND 0x3F) OR 0x80" "drop 9 y = drop 9 x"
    by blast
  have "rand_bits y = rand_bits x"
    by (rule rand_bits_cong) (simp_all add: y low_nibble_tagged_4 low_six_tagged)
  with y(1,2) assms
  show "\<exists>y. Encode x k = Some y \<and>
      buildSipInputFromV7 y (replicate 10 0) = buildSipInputFromV7 x (replicate 10 0) \<and>
      mask48 y k = mask48 x k"
    by (simp add: message_is_rand_bits mask48_def)
  from Decode_fields [OF assms, of k] obtain z where z:
    "Decode x k = Some z" "length z = 16" "z ! 6 = (x ! 6 AND 0x0F) OR 0x70" "z ! 7 = x ! 7"
    "z ! 8 = (x ! 8 AND 0x3F) OR 0x80" "drop 9 z = drop 9 x"
    by blast
  have "rand_bits z = rand_bits x"
    by (rule rand_bits_cong) (simp_all add: z low_nibble_tagged_7 low_six_tagged)
  with z(1,2) assms
  show "\<exists>z. Decode x k = Some z \<and>
      buildSipInputFromV7 z (replicate 10 0) = buildSipInputFromV7 x (replicate 10 0) \<and>
      mask48 z k = mask48 x k"
    by (simp add: message_is_rand_bits mask48_def)
qed

theorem sip_message_stable_witness:
  "length example_facade = 16 \<and>
   (buildSipInputFromV7 example_facade (replicate 10 0) =
      [example_facade ! 6 AND 0x0F, example_facade ! 7, example_facade ! 8 AND 0x3F,
       example_facade ! 9, example_facade ! 10, example_facade ! 11, example_facade ! 12,
       example_facade ! 13, example_facade ! 14, example_facade ! 15] \<and>
    (\<exists>y. Encode example_facade example_key = Some y \<and>
       buildSipInputFromV7 y (replicate 10 0) =
       buildSipInputFromV7 example_facade (replicate 10 0) \<and>
       mask48 y example_key = mask48 example_facade example_key) \<and>
    (\<exists>z. Decode example_facade example_key = Some z \<and>
       buildSipInputFromV7 z (replicate 10 0) =
       buildSipInputFromV7 example_facade (replicate 10 0) \<and>
       mask48 z example_key = mask48 example_facade example_key))"
proof -
  have len: "length example_facade = 16" by (simp add: example_facade_def)
  from len sip_message_stable [OF len, of example_key] show ?thesis by (rule conjI)
qed

text \<open>
  C6. With the key \<open>k0 = 0x0123456789abcdef\<close>, \<open>k1 = 0xfedcba9876543210\<close>,
  \<open>Encode\<close> maps the bytes \<open>01 8f 2d 9f 9a 2a 7d ef 8c 3f 7b 1a 2c 4d 5e 6f\<close> to
  \<open>24 63 c7 80 7f ca 4d ef 8c 3f 7b 1a 2c 4d 5e 6f\<close>, and \<open>Decode\<close> maps these back
  to the first sixteen.
\<close>

theorem example_scenario:
  "Encode example_v7 example_key = Some example_facade \<and>
   Decode example_facade example_key = Some example_v7"
proof
  have mask: "siphash24 [0x7d AND 0x0F, 0xef, 0x8c AND 0x3F, 0x3f, 0x7b, 0x1a, 0x2c, 0x4d, 0x5e, 0x6f]
     (K0 example_key) (K1 example_key) = Some 0xb72c25ecea1fe5e0"
    by (simp add: example_key_def example_mask)
  have e: "(0x2463c7807fca :: uint64) =
      (push_bit 40 (ucast (0x01 :: byte)) OR push_bit 32 (ucast (0x8f :: byte)) OR
       push_bit 24 (ucast (0x2d :: byte)) OR push_bit 16 (ucast (0x9f :: byte)) OR
       push_bit 8 (ucast (0x9a :: byte)) OR push_bit 0 (ucast (0x2a :: byte))) XOR
      (0xb72c25ecea1fe5e0 AND 0x0000FFFFFFFFFFFF)"
    by simp
  show "Encode example_v7 example_key = Some example_facade"
    unfolding example_v7_def example_facade_def
    by (rule trans [OF Encode_explicit [OF mask e]]) simp
  have mask': "siphash24 [0x4d AND 0x0F, 0xef, 0x8c AND 0x3F, 0x3f, 0x7b, 0x1a, 0x2c, 0x4d, 0x5e, 0x6f]
     (K0 example_key) (K1 example_key) = Some 0xb72c25ecea1fe5e0"
    by (simp add: example_key_def example_mask)
  have e': "(0x018f2d9f9a2a :: uint64) =
      (push_bit 40 (ucast (0x24 :: byte)) OR push_bit 32 (ucast (0x63 :: byte)) OR
       push_bit 24 (ucast (0xc7 :: byte)) OR push_bit 16 (ucast (0x80 :: byte)) OR
       push_bit 8 (ucast (0x7f :: byte)) OR push_bit 0 (ucast (0xca :: byte))) XOR
      (0xb72c25ecea1fe5e0 AND 0x0000FFFFFFFFFFFF)"
    by simp
  show "Decode example_facade example_key = Some example_v7"
    unfolding example_v7_def example_facade_def
    by (rule trans [OF Decode_explicit [OF mask' e']]) simp
qed

text \<open>
  C7. \<open>siphash24\<close>, \<open>Encode\<close> and \<open>Decode\<close> return on every input: the hash on every
  byte sequence and key, the transform on every sixteen bytes and key, whatever the
  version nibble, with no error and no panic; the result has sixteen bytes. That equal
  inputs give equal outputs is what it means for the three to be functions of their
  arguments: the source reads no package variable, clock or random source.
\<close>

theorem core_total:
  "(\<exists>h. siphash24 inp k0 k1 = Some h) \<and>
   (length x = 16 \<longrightarrow>
      (\<exists>!y. Encode x k = Some y \<and> length y = 16) \<and>
      (\<exists>!z. Decode x k = Some z \<and> length z = 16))"
  using siphash24_total [of inp k0 k1] Encode_fields [of x k] Decode_fields [of x k]
  by auto

theorem core_total_witness:
  "length (replicate 16 (0xFF :: byte)) = 16 \<and>
   (\<exists>h. siphash24 [] 0 0 = Some h) \<and>
   (\<exists>!y. Encode (replicate 16 0xFF) example_key = Some y \<and> length y = 16) \<and>
   (\<exists>!z. Decode (replicate 16 0xFF) example_key = Some z \<and> length z = 16)"
  using core_total [of "[]" 0 0 "replicate 16 0xFF" example_key] by simp

text \<open>
  C8, as the code has it. \<open>Parse\<close> succeeds exactly on the strings of 36 characters with
  hyphens at the offsets 8, 13, 18 and 23 and a hex digit at each of the 32 other offsets.
  The three checks run in this order and the first that fails gives the error: a length
  other than 36 gives \<open>ErrInvalidLength\<close>; with the length right, an offset 8, 13, 18 or
  23 without a hyphen gives \<open>ErrInvalidFormat\<close>; with both right, a character that is
  not a hex digit at another offset gives \<open>ErrInvalidHex\<close>. The three errors differ.
\<close>

theorem Parse_outcomes:
  "((\<exists>u. Parse s = Some (u, None)) \<longleftrightarrow> canonical_text s) \<and>
   (length s \<noteq> 36 \<longrightarrow> Parse s = Some (UUID_zero, Some ErrInvalidLength)) \<and>
   (length s = 36 \<and> \<not> hyphens_placed s \<longrightarrow>
      Parse s = Some (UUID_zero, Some ErrInvalidFormat)) \<and>
   (length s = 36 \<and> hyphens_placed s \<and> \<not> hex_at_data s \<longrightarrow>
      Parse s = Some (UUID_zero, Some ErrInvalidHex)) \<and>
   distinct [ErrInvalidLength, ErrInvalidFormat, ErrInvalidHex]"
  by (simp add: Parse_cases digits_ok_iff canonical_text_def)

theorem Parse_outcomes_witness:
  "length (map ch ''018f2d9f'') \<noteq> 36 \<and>
   Parse (map ch ''018f2d9f'') = Some (UUID_zero, Some ErrInvalidLength) \<and>
   length (map ch ''018f2d9f+9a2a-7def-8c3f-7b1a2c4d5e6f'') = 36 \<and>
   \<not> hyphens_placed (map ch ''018f2d9f+9a2a-7def-8c3f-7b1a2c4d5e6f'') \<and>
   Parse (map ch ''018f2d9f+9a2a-7def-8c3f-7b1a2c4d5e6f'') =
     Some (UUID_zero, Some ErrInvalidFormat) \<and>
   length (map ch ''zzzzzzzz-zzzz-zzzz-zzzz-zzzzzzzzzzzz'') = 36 \<and>
   hyphens_placed (map ch ''zzzzzzzz-zzzz-zzzz-zzzz-zzzzzzzzzzzz'') \<and>
   \<not> hex_at_data (map ch ''zzzzzzzz-zzzz-zzzz-zzzz-zzzzzzzzzzzz'') \<and>
   Parse (map ch ''zzzzzzzz-zzzz-zzzz-zzzz-zzzzzzzzzzzz'') =
     Some (UUID_zero, Some ErrInvalidHex) \<and>
   canonical_text example_v7_string \<and>
   (\<exists>u. Parse example_v7_string = Some (u, None))"
proof -
  have 1: "length (map ch ''018f2d9f'') \<noteq> 36" by simp
  have 2: "length (map ch ''018f2d9f+9a2a-7def-8c3f-7b1a2c4d5e6f'') = 36 \<and>
     \<not> hyphens_placed (map ch ''018f2d9f+9a2a-7def-8c3f-7b1a2c4d5e6f'')"
    by (simp add: text_eval)
  have 3: "length (map ch ''zzzzzzzz-zzzz-zzzz-zzzz-zzzzzzzzzzzz'') = 36 \<and>
     hyphens_placed (map ch ''zzzzzzzz-zzzz-zzzz-zzzz-zzzzzzzzzzzz'') \<and>
     \<not> hex_at_data (map ch ''zzzzzzzz-zzzz-zzzz-zzzz-zzzzzzzzzzzz'')"
    by (simp add: text_eval)
  have 4: "canonical_text example_v7_string"
    by (simp add: example_v7_string_def text_eval)
  from 1 2 3 4
    Parse_outcomes [of "map ch ''018f2d9f''"]
    Parse_outcomes [of "map ch ''018f2d9f+9a2a-7def-8c3f-7b1a2c4d5e6f''"]
    Parse_outcomes [of "map ch ''zzzzzzzz-zzzz-zzzz-zzzz-zzzzzzzzzzzz''"]
    Parse_outcomes [of example_v7_string]
  show ?thesis by blast
qed

text \<open>
  C8, as the claim words it (a character that is not a hex digit at a data offset gives
  \<open>ErrInvalidHex\<close>), fails on 36 letters \<open>z\<close>: offset 0 is a data offset, \<open>z\<close> is no
  hex digit, and \<open>Parse\<close> returns \<open>ErrInvalidFormat\<close>, since offset 8 has no hyphen.
\<close>

theorem Parse_first_failure_counterexample:
  "length all_z = 36 \<and> 0 \<in> set data_offsets \<and> \<not> hex_char (all_z ! 0) \<and>
   Parse all_z = Some (UUID_zero, Some ErrInvalidFormat) \<and>
   Parse all_z \<noteq> Some (UUID_zero, Some ErrInvalidHex)"
  by (simp add: all_z_def Parse_cases text_eval)

text \<open>
  C9. For every UUID \<open>u\<close> of sixteen bytes, \<open>String u\<close> is a string of 36 characters,
  with hyphens at the offsets 8, 13, 18 and 23 and a lower-case hex digit at every other
  offset, and \<open>Parse\<close> of it returns \<open>u\<close> and no error.
\<close>

theorem Parse_String:
  assumes "length u = 16"
  shows "\<exists>s. String u = Some s \<and> lower_canonical_text s \<and> Parse s = Some (u, None)"
proof -
  from assms obtain b0 b1 b2 b3 b4 b5 b6 b7 b8 b9 b10 b11 b12 b13 b14 b15 where
    u: "u = [b0, b1, b2, b3, b4, b5, b6, b7, b8, b9, b10, b11, b12, b13, b14, b15]"
    by (rule length_16_obtain)
  obtain s where s: "String u = Some s" and
    s_def: "s = [hexd ! unat (drop_bit 4 b0 AND 15), hexd ! unat (b0 AND 15),
       hexd ! unat (drop_bit 4 b1 AND 15), hexd ! unat (b1 AND 15),
       hexd ! unat (drop_bit 4 b2 AND 15), hexd ! unat (b2 AND 15),
       hexd ! unat (drop_bit 4 b3 AND 15), hexd ! unat (b3 AND 15), ch CHR ''-'',
       hexd ! unat (drop_bit 4 b4 AND 15), hexd ! unat (b4 AND 15),
       hexd ! unat (drop_bit 4 b5 AND 15), hexd ! unat (b5 AND 15), ch CHR ''-'',
       hexd ! unat (drop_bit 4 b6 AND 15), hexd ! unat (b6 AND 15),
       hexd ! unat (drop_bit 4 b7 AND 15), hexd ! unat (b7 AND 15), ch CHR ''-'',
       hexd ! unat (drop_bit 4 b8 AND 15), hexd ! unat (b8 AND 15),
       hexd ! unat (drop_bit 4 b9 AND 15), hexd ! unat (b9 AND 15), ch CHR ''-'',
       hexd ! unat (drop_bit 4 b10 AND 15), hexd ! unat (b10 AND 15),
       hexd ! unat (drop_bit 4 b11 AND 15), hexd ! unat (b11 AND 15),
       hexd ! unat (drop_bit 4 b12 AND 15), hexd ! unat (b12 AND 15),
       hexd ! unat (drop_bit 4 b13 AND 15), hexd ! unat (b13 AND 15),
       hexd ! unat (drop_bit 4 b14 AND 15), hexd ! unat (b14 AND 15),
       hexd ! unat (drop_bit 4 b15 AND 15), hexd ! unat (b15 AND 15)]"
    unfolding u using String_explicit by blast
  have len: "length s = 36" by (simp add: s_def)
  have hy: "hyphens_placed s"
    by (simp add: s_def hyphens_placed_def hyphen_offsets_def)
  have lower: "list_all (\<lambda>p. lower_hex_char (s ! p)) data_offsets"
    by (simp add: s_def data_offsets_explicit lower_hex_hexd)
  have digits: "list_all (Parse_digits_ok s) [0..15]"
    by (simp add: s_def upto_0_15 Parse_digits_ok_def Parse_pos_def hexval_hexd)
  have bytes: "fold (\<lambda>k out. out[nat k := Parse_byte s k]) [0..15] UUID_zero = u"
    by (simp add: s_def u upto_0_15 Parse_byte_def Parse_pos_def hexval_hexd byte_of_nibbles
        UUID_zero_def replicate_16)
  from len hy digits bytes have "Parse s = Some (u, None)"
    by (simp add: Parse_cases)
  with s len hy lower show ?thesis
    by (simp add: lower_canonical_text_def)
qed

theorem Parse_String_witness:
  "length example_facade = 16 \<and>
   (\<exists>s. String example_facade = Some s \<and> lower_canonical_text s \<and>
      Parse s = Some (example_facade, None))"
proof -
  have len: "length example_facade = 16" by (simp add: example_facade_def)
  from len Parse_String [OF len] show ?thesis by (rule conjI)
qed

text \<open>
  C10. \<open>SetBytes\<close> returns \<open>ErrInvalidByteSlice\<close> exactly when the slice does not have
  16 bytes, and leaves the receiver as it was then; on 16 bytes it returns no error and the
  receiver is the slice's bytes. \<open>UnmarshalText\<close> returns the error of \<open>Parse\<close>
  exactly when the text is not in the canonical form, and leaves the receiver as it was
  then; on a canonical text it returns no error and the receiver is the parsed UUID.
\<close>

theorem SetBytes_UnmarshalText_atomic:
  "(snd (SetBytes u b) = Some ErrInvalidByteSlice \<longleftrightarrow> length b \<noteq> 16) \<and>
   (length b \<noteq> 16 \<longrightarrow> SetBytes u b = (u, Some ErrInvalidByteSlice)) \<and>
   (length b = 16 \<and> length u = 16 \<longrightarrow> SetBytes u b = (b, None)) \<and>
   (\<not> canonical_text t \<longrightarrow>
      (\<exists>e. Parse t = Some (UUID_zero, Some e) \<and> UnmarshalText u t = Some (u, Some e))) \<and>
   (canonical_text t \<longrightarrow>
      (\<exists>p. Parse t = Some (p, None) \<and> length p = 16 \<and>
         UnmarshalText u t = Some (p, None)))"
proof (intro conjI impI)
  show "snd (SetBytes u b) = Some ErrInvalidByteSlice \<longleftrightarrow> length b \<noteq> 16"
    by (simp add: SetBytes_def)
  show "SetBytes u b = (u, Some ErrInvalidByteSlice)" if "length b \<noteq> 16"
    using that by (simp add: SetBytes_def)
  show "SetBytes u b = (b, None)" if "length b = 16 \<and> length u = 16"
    using that by (simp add: SetBytes_def copy_same_length)
  show "\<exists>e. Parse t = Some (UUID_zero, Some e) \<and> UnmarshalText u t = Some (u, Some e)"
    if "\<not> canonical_text t"
    using that by (auto simp add: Parse_cases digits_ok_iff canonical_text_def UnmarshalText_def)
  show "\<exists>p. Parse t = Some (p, None) \<and> length p = 16 \<and> UnmarshalText u t = Some (p, None)"
    if "canonical_text t"
  proof -
    from that obtain p where p: "Parse t = Some (p, None)"
      by (auto simp add: Parse_cases digits_ok_iff canonical_text_def)
    then have "length p = 16" by (rule Parse_success_length)
    with p show ?thesis by (simp add: UnmarshalText_def)
  qed
qed

theorem SetBytes_UnmarshalText_atomic_witness:
  "length [1, 2, 3 :: byte] \<noteq> 16 \<and>
   SetBytes example_v7 [1, 2, 3] = (example_v7, Some ErrInvalidByteSlice) \<and>
   length example_facade = 16 \<and> length example_v7 = 16 \<and>
   SetBytes example_v7 example_facade = (example_facade, None) \<and>
   \<not> canonical_text all_z \<and>
   (\<exists>e. Parse all_z = Some (UUID_zero, Some e) \<and>
      UnmarshalText example_v7 all_z = Some (example_v7, Some e)) \<and>
   canonical_text example_facade_string \<and>
   (\<exists>p. Parse example_facade_string = Some (p, None) \<and> length p = 16 \<and>
      UnmarshalText example_v7 example_facade_string = Some (p, None))"
proof -
  have 1: "length [1, 2, 3 :: byte] \<noteq> 16" by simp
  have 2: "length example_facade = 16 \<and> length example_v7 = 16"
    by (simp add: example_facade_def example_v7_def)
  have 3: "\<not> canonical_text all_z" by (simp add: all_z_def text_eval)
  have 4: "canonical_text example_facade_string"
    by (simp add: example_facade_string_def text_eval)
  from 1 2 3 4
    SetBytes_UnmarshalText_atomic [of example_v7 "[1, 2, 3]" all_z]
    SetBytes_UnmarshalText_atomic [of example_v7 example_facade example_facade_string]
  show ?thesis by blast
qed

end
